theory Spec2Isabelle
  imports Main "HOL-Library.Char_ord" "HOL-Library.Word"
begin

unbundle bit_operations_syntax

section \<open>C strings and libc helpers\<close>

text \<open>
  A C string is modelled by the list of its bytes. Reading one stops at the first NUL
  byte, or at the end of the list, which stands for the terminator. Functions that the
  source applies only to text already cut at a NUL are written on plain lists; the two
  places where a NUL can enter (the bytes of a socket read, the output of percent-decoding)
  cut the text with \<open>c_str\<close> as the C code's \<open>strlen\<close> does.
\<close>

definition NUL :: char where
  "NUL = CHR 0x00"

definition c_str :: "string \<Rightarrow> string" where
  "c_str s = takeWhile (\<lambda>c. c \<noteq> NUL) s"

section \<open>Percent-encoding (src/ipc.c)\<close>

definition ipc_pct_is_unreserved :: "char \<Rightarrow> bool" where
  "ipc_pct_is_unreserved c \<longleftrightarrow>
     (CHR ''A'' \<le> c \<and> c \<le> CHR ''Z'')
   \<or> (CHR ''a'' \<le> c \<and> c \<le> CHR ''z'')
   \<or> (CHR ''0'' \<le> c \<and> c \<le> CHR ''9'')
   \<or> c = CHR ''-'' \<or> c = CHR ''_'' \<or> c = CHR ''.'' \<or> c = CHR ''~''"

text \<open>\<open>ipc_hex_nibble\<close> returns \<open>-1\<close> for a byte that is no hexadecimal digit.\<close>

definition ipc_hex_nibble :: "char \<Rightarrow> int" where
  "ipc_hex_nibble c =
     (if CHR ''0'' \<le> c \<and> c \<le> CHR ''9'' then of_char c - of_char (CHR ''0'')
      else if CHR ''a'' \<le> c \<and> c \<le> CHR ''f'' then 10 + (of_char c - of_char (CHR ''a''))
      else if CHR ''A'' \<le> c \<and> c \<le> CHR ''F'' then 10 + (of_char c - of_char (CHR ''A''))
      else - 1)"

text \<open>
  \<open>ipc_pct_decode_inplace\<close> returns \<open>false\<close> (here \<open>None\<close>) on a truncated or invalid
  escape, and otherwise \<open>true\<close> with the decoded bytes written over the argument (here
  \<open>Some\<close> of the bytes written before the final terminator). An escape \<open>%00\<close> writes a
  NUL byte, so the C string the caller then reads is \<open>c_str\<close> of these bytes.
\<close>

fun ipc_pct_decode_inplace :: "string \<Rightarrow> string option" where
  "ipc_pct_decode_inplace [] = Some []"
| "ipc_pct_decode_inplace (c # src) =
     (if c = NUL then Some []
      else if c \<noteq> CHR ''%'' then map_option ((#) c) (ipc_pct_decode_inplace src)
      else (case src of
              h # l # rest \<Rightarrow>
                if h = NUL \<or> l = NUL then None
                else let hi = ipc_hex_nibble h; lo = ipc_hex_nibble l in
                  if hi < 0 \<or> lo < 0 then None
                  else map_option ((#) (char_of (push_bit 4 hi OR lo)))
                         (ipc_pct_decode_inplace rest)
            | _ \<Rightarrow> None))"

text \<open>The digit that \<open>printf\<close>'s \<open>%X\<close> prints for a value below 16.\<close>

definition hex_digit_upper :: "nat \<Rightarrow> char" where
  "hex_digit_upper n = ''0123456789ABCDEF'' ! (n mod 16)"

text \<open>\<open>buf_add_fmt(buf, "%%%02X", *p)\<close> for an unsigned byte: a percent sign and two digits.\<close>

definition buf_add_fmt_pct02X :: "string \<Rightarrow> char \<Rightarrow> string" where
  "buf_add_fmt_pct02X buf p =
     buf @ [CHR ''%'', hex_digit_upper (of_char p div 16), hex_digit_upper (of_char p mod 16)]"

definition buf_add_char :: "string \<Rightarrow> char \<Rightarrow> string" where
  "buf_add_char buf c = buf @ [c]"

definition buf_add :: "string \<Rightarrow> string \<Rightarrow> string" where
  "buf_add buf s = buf @ c_str s"

fun buf_add_pct_encoded :: "string \<Rightarrow> string \<Rightarrow> string" where
  "buf_add_pct_encoded buf [] = buf"
| "buf_add_pct_encoded buf (p # s) =
     (if p = NUL then buf
      else buf_add_pct_encoded
             (if ipc_pct_is_unreserved p then buf_add_char buf p
              else buf_add_fmt_pct02X buf p) s)"

section \<open>libc helpers used by the command parser\<close>

definition LF :: char where
  "LF = CHR 0x0A"

definition CR :: char where
  "CR = CHR 0x0D"

text \<open>\<open>isspace\<close>, \<open>isdigit\<close> and \<open>tolower\<close> in the C locale.\<close>

definition isspace :: "char \<Rightarrow> bool" where
  "isspace c \<longleftrightarrow> c = CHR '' '' \<or> c = CHR 0x09 \<or> c = CHR 0x0A \<or> c = CHR 0x0B
     \<or> c = CHR 0x0C \<or> c = CHR 0x0D"

definition isdigit :: "char \<Rightarrow> bool" where
  "isdigit c \<longleftrightarrow> CHR ''0'' \<le> c \<and> c \<le> CHR ''9''"

definition tolower :: "char \<Rightarrow> char" where
  "tolower c =
     (if CHR ''A'' \<le> c \<and> c \<le> CHR ''Z''
      then ''abcdefghijklmnopqrstuvwxyz'' ! (of_char c - of_char (CHR ''A''))
      else c)"

text \<open>\<open>strcasecmp(a, b) == 0\<close> and \<open>strncasecmp(a, b, n) == 0\<close>.\<close>

definition strcasecmp_eq :: "string \<Rightarrow> string \<Rightarrow> bool" where
  "strcasecmp_eq a b \<longleftrightarrow> map tolower a = map tolower b"

definition strncasecmp_eq :: "string \<Rightarrow> string \<Rightarrow> nat \<Rightarrow> bool" where
  "strncasecmp_eq a b n \<longleftrightarrow> map tolower (take n a) = map tolower (take n b)"

text \<open>
  \<open>strtok_r\<close> with the delimiters space and tab: \<open>None\<close> when only delimiters are
  left, otherwise the next token and the text after the delimiter that ends it (the save
  pointer).
\<close>

definition is_delim :: "char \<Rightarrow> bool" where
  "is_delim c \<longleftrightarrow> c = CHR '' '' \<or> c = CHR 0x09"

definition strtok_r :: "string \<Rightarrow> (string \<times> string) option" where
  "strtok_r s =
     (let t = dropWhile is_delim s in
      if t = [] then None
      else Some (takeWhile (\<lambda>c. \<not> is_delim c) t,
                 drop 1 (dropWhile (\<lambda>c. \<not> is_delim c) t)))"

text \<open>The tokens that the loop \<open>while ((tok = strtok_r(NULL, " \t", &save)))\<close> visits.\<close>

function strtok_all :: "string \<Rightarrow> string list" where
  "strtok_all save =
     (case strtok_r save of
        None \<Rightarrow> []
      | Some (tok, save') \<Rightarrow> tok # strtok_all save')"
  by pat_completeness auto
termination
proof (relation "measure length")
  show "wf (measure length)" by simp
next
  fix save :: string and x2 tok save'
  assume a: "strtok_r save = Some x2" "(tok, save') = x2"
  let ?t = "dropWhile is_delim save"
  let ?r = "dropWhile (\<lambda>c. \<not> is_delim c) ?t"
  from a have t: "?t \<noteq> []" and s: "save' = drop 1 ?r"
    by (auto simp: strtok_r_def Let_def split: if_splits)
  have "length ?r \<le> length ?t" by (rule length_dropWhile_le)
  moreover have "length ?t \<le> length save" by (rule length_dropWhile_le)
  moreover have "0 < length ?t" using t by simp
  ultimately have "length save' < length save"
    using s by (cases ?r) auto
  then show "(save', save) \<in> measure length" by simp
qed

declare strtok_all.simps [simp del]

text \<open>
  \<open>strchr(tok, '=')\<close> followed by \<open>*eq = '\0'\<close>: the key before the first equals sign
  and the value after it, or \<open>None\<close> when the token has no equals sign.
\<close>

definition split_eq :: "string \<Rightarrow> (string \<times> string) option" where
  "split_eq tok =
     (if CHR ''='' \<in> set tok
      then Some (takeWhile (\<lambda>c. c \<noteq> CHR ''='') tok,
                 drop 1 (dropWhile (\<lambda>c. c \<noteq> CHR ''='') tok))
      else None)"

text \<open>
  \<open>atoi\<close> as glibc has it on an LP64 machine, \<open>(int) strtol(s, NULL, 10)\<close>: leading white
  space, an optional sign, decimal digits; \<open>strtol\<close> saturates at the limits of
  \<open>long\<close>, and the conversion to \<open>int\<close> keeps the low 32 bits.
\<close>

definition digit_val :: "char \<Rightarrow> int" where
  "digit_val c = of_char c - of_char (CHR ''0'')"

definition strtol10 :: "string \<Rightarrow> int" where
  "strtol10 s =
     (let t = dropWhile isspace s;
          neg = (case t of c # _ \<Rightarrow> c = CHR ''-'' | [] \<Rightarrow> False);
          u = (case t of c # r \<Rightarrow> if c = CHR ''-'' \<or> c = CHR ''+'' then r else t | [] \<Rightarrow> []);
          v = foldl (\<lambda>a d. a * 10 + digit_val d) 0 (takeWhile isdigit u)
      in if neg then max (- (2 ^ 63)) (- v) else min (2 ^ 63 - 1) v)"

definition atoi :: "string \<Rightarrow> int" where
  "atoi s = sint (word_of_int (strtol10 s) :: 32 word)"

text \<open>\<open>printf\<close>'s \<open>%zu\<close> and \<open>%d\<close>.\<close>

function fmt_zu :: "nat \<Rightarrow> string" where
  "fmt_zu n =
     (if n < 10 then [''0123456789'' ! n]
      else fmt_zu (n div 10) @ [''0123456789'' ! (n mod 10)])"
  by pat_completeness auto
termination
  by (relation "measure id") auto

declare fmt_zu.simps [simp del]

definition fmt_d :: "int \<Rightarrow> string" where
  "fmt_d i = (if i < 0 then CHR ''-'' # fmt_zu (nat (- i)) else fmt_zu (nat i))"

text \<open>
  Modelled from the spec: \<open>string_strip\<close> lives in common/string-helpers.c, which is not
  part of the sources at hand. It removes the white space at both ends of the line.
\<close>

definition string_strip :: "string \<Rightarrow> string" where
  "string_strip s = dropWhile isspace (rev (dropWhile isspace (rev s)))"

section \<open>The workspace registry (workspaces.c)\<close>

text \<open>
  A pointer to an allocated struct is a natural number, fresh at each allocation. The
  intrusive list \<open>server->workspaces.all\<close> is the list of its members in order.
\<close>

record workspace =
  ws_ptr :: nat
  ws_name :: string

record view =
  view_ptr :: nat
  view_workspace :: "nat option"
  visible_on_all_workspaces :: bool
  mapped :: bool
  app_id :: "string option"
  title :: "string option"
  cur_x :: int
  cur_y :: int
  cur_width :: int
  cur_height :: int
  maximized :: bool
  minimized :: bool
  fullscreen :: bool
  tiled :: bool
  view_output :: "(string \<times> int \<times> int \<times> int \<times> int) option"

text \<open>
  Calls into the collaborators (scene graph, the two workspace-group protocols, focus,
  cursor, indicator, overlay) are recorded in order; what they do inside is outside this
  development.
\<close>

datatype call =
    Scene_tree_create nat
  | Scene_node_set_enabled nat bool
  | Scene_node_destroy nat
  | Cosmic_workspace_create nat
  | Cosmic_workspace_set_name nat string
  | Cosmic_workspace_set_active nat bool
  | Cosmic_workspace_destroy nat
  | Ext_workspace_create nat
  | Ext_workspace_set_name nat string
  | Ext_workspace_set_active nat bool
  | Ext_workspace_destroy nat
  | Desktop_focus_topmost_view
  | Osd_show
  | Cursor_update_focus
  | Desktop_update_top_layer_visibility
  | Overlay_finish

text \<open>
  \<open>state_file\<close> is the content of the canonical state file, \<open>None\<close> when it does not
  exist or cannot be opened. \<open>fs_writable\<close> stands for the success of every step of a
  write: the state directory is known and can be created, the temporary file can be
  written, closed and renamed. \<open>broadcast\<close> holds the event lines handed to
  \<open>ipc_broadcast_raw\<close>, oldest first; their delivery to each subscribed connection is a
  socket write and is not modelled.
\<close>

record server =
  workspaces_all :: "workspace list"
  workspaces_current :: nat
  workspaces_last :: "nat option"
  views :: "view list"
  active_view :: "nat option"
  grabbed_view :: "nat option"
  next_ptr :: nat
  state_file :: "string option"
  fs_writable :: bool
  broadcast :: "string list"
  calls :: "call list"

definition log_calls :: "call list \<Rightarrow> server \<Rightarrow> server" where
  "log_calls cs s = s\<lparr>calls := calls s @ cs\<rparr>"

subsection \<open>Persistence\<close>

text \<open>\<open>fputs(name, fp)\<close> and \<open>fputc('\n', fp)\<close> for each workspace in list order.\<close>

definition persist_text :: "workspace list \<Rightarrow> string" where
  "persist_text ws = concat (map (\<lambda>w. c_str (ws_name w) @ [LF]) ws)"

definition workspace_state_persist :: "server \<Rightarrow> server" where
  "workspace_state_persist s =
     (if fs_writable s then s\<lparr>state_file := Some (persist_text (workspaces_all s))\<rparr> else s)"

text \<open>
  The lines that successive calls of \<open>getline\<close> return: each runs up to and including the
  next line feed, the last one to the end of the file. \<open>cur\<close> holds the bytes of the line
  being read.
\<close>

fun getlines :: "string \<Rightarrow> string \<Rightarrow> string list" where
  "getlines cur [] = (if cur = [] then [] else [cur])"
| "getlines cur (c # file) =
     (if c = LF then (cur @ [c]) # getlines [] file else getlines (cur @ [c]) file)"

text \<open>The inner loop that cuts every trailing line feed and carriage return.\<close>

definition strip_eol :: "string \<Rightarrow> string" where
  "strip_eol line = rev (dropWhile (\<lambda>c. c = LF \<or> c = CR) (rev line))"

fun load_lines :: "string list \<Rightarrow> string list" where
  "load_lines [] = []"
| "load_lines (line # rest) =
     (if strip_eol line = [] then load_lines rest
      else c_str (strip_eol line) # load_lines rest)"

text \<open>\<open>None\<close> is the return value \<open>false\<close>; \<open>Some\<close> holds the names of the list \<open>out\<close>.\<close>

definition workspace_config_list_load_persisted :: "server \<Rightarrow> string list option" where
  "workspace_config_list_load_persisted s =
     (case state_file s of
        None \<Rightarrow> None
      | Some text \<Rightarrow>
          let out = load_lines (getlines [] text) in
          if length out \<le> 0 then None else Some out)"

subsection \<open>Lookup\<close>

fun workspace_by_index_loop :: "workspace list \<Rightarrow> int \<Rightarrow> int \<Rightarrow> workspace option" where
  "workspace_by_index_loop [] i index = None"
| "workspace_by_index_loop (w # ws) i index =
     (if i = index then Some w else workspace_by_index_loop ws (i + 1) index)"

definition workspace_by_index :: "server \<Rightarrow> int \<Rightarrow> workspace option" where
  "workspace_by_index s index =
     (if index < 1 then None else workspace_by_index_loop (workspaces_all s) 1 index)"

text \<open>\<open>workspace_index\<close> of ipc.c: the 1-based position of a workspace, 0 when absent.\<close>

fun workspace_index_loop :: "workspace list \<Rightarrow> nat \<Rightarrow> int \<Rightarrow> int" where
  "workspace_index_loop [] ws idx = 0"
| "workspace_index_loop (iter # rest) ws idx =
     (if ws_ptr iter = ws then idx else workspace_index_loop rest ws (idx + 1))"

definition workspace_index :: "server \<Rightarrow> nat option \<Rightarrow> int" where
  "workspace_index s ws =
     (case ws of None \<Rightarrow> 0 | Some p \<Rightarrow> workspace_index_loop (workspaces_all s) p 1)"

subsection \<open>Events\<close>

definition ipc_broadcast_event :: "server \<Rightarrow> string \<Rightarrow> server" where
  "ipc_broadcast_event s event =
     s\<lparr>broadcast := broadcast s @ [''EVENT '' @ event @ [LF]]\<rparr>"

definition ipc_notify_workspace_changed :: "server \<Rightarrow> server" where
  "ipc_notify_workspace_changed s =
     ipc_broadcast_event s
       (''workspace-changed current='' @ fmt_d (workspace_index s (Some (workspaces_current s))))"

definition ipc_notify_workspace_list_changed :: "server \<Rightarrow> server" where
  "ipc_notify_workspace_list_changed s =
     ipc_broadcast_event s
       (''workspace-list-changed current=''
          @ fmt_d (workspace_index s (Some (workspaces_current s)))
          @ '' count='' @ fmt_zu (length (workspaces_all s)))"

subsection \<open>Creating, switching, destroying\<close>

definition add_workspace :: "server \<Rightarrow> string \<Rightarrow> server" where
  "add_workspace s name =
     (let p = next_ptr s in
      log_calls
        [Scene_tree_create p, Scene_node_set_enabled p False,
         Cosmic_workspace_create p, Cosmic_workspace_set_name p name,
         Ext_workspace_create p, Ext_workspace_set_name p name]
        (s\<lparr>workspaces_all := workspaces_all s @ [\<lparr>ws_ptr = p, ws_name = name\<rparr>],
           next_ptr := Suc p\<rparr>))"

text \<open>
  \<open>workspaces_init\<close> starts from an empty list, adds the workspace \<open>"1"\<close>, makes the first
  member current and writes the state file.
\<close>

definition workspaces_init :: "server \<Rightarrow> server" where
  "workspaces_init s =
     (let s1 = add_workspace (s\<lparr>workspaces_all := []\<rparr>) ''1'' in
      case workspaces_all s1 of
        [] \<Rightarrow> s1
      | first # _ \<Rightarrow>
          workspace_state_persist
            (log_calls
               [Scene_node_set_enabled (ws_ptr first) True,
                Cosmic_workspace_set_active (ws_ptr first) True,
                Ext_workspace_set_active (ws_ptr first) True]
               (s1\<lparr>workspaces_current := ws_ptr first\<rparr>)))"

text \<open>
  Modelled from the spec: \<open>view_move_to_workspace\<close> is defined in view.c, which is not part
  of the sources at hand; it migrates the window to the given workspace.
\<close>

definition view_move_to_workspace :: "view \<Rightarrow> nat \<Rightarrow> view" where
  "view_move_to_workspace v ws = v\<lparr>view_workspace := Some ws\<rparr>"

definition find_view :: "server \<Rightarrow> nat \<Rightarrow> view option" where
  "find_view s p = find (\<lambda>v. view_ptr v = p) (views s)"

definition workspaces_switch_to :: "server \<Rightarrow> nat \<Rightarrow> bool \<Rightarrow> server" where
  "workspaces_switch_to s target update_focus =
     (if target = workspaces_current s then s
      else
        let cur = workspaces_current s;
            s1 = log_calls [Scene_node_set_enabled cur False,
                            Cosmic_workspace_set_active cur False,
                            Ext_workspace_set_active cur False] s;
            s2 = s1\<lparr>views := map (\<lambda>v. if visible_on_all_workspaces v
                                       then view_move_to_workspace v target else v) (views s1)\<rparr>;
            s3 = log_calls [Scene_node_set_enabled target True] s2;
            s4 = s3\<lparr>workspaces_last := Some (workspaces_current s3)\<rparr>;
            s5 = s4\<lparr>workspaces_current := target\<rparr>;
            s6 = (case grabbed_view s5 of
                    None \<Rightarrow> s5
                  | Some g \<Rightarrow>
                      s5\<lparr>views := map (\<lambda>v. if view_ptr v = g
                                            then view_move_to_workspace v target else v) (views s5)\<rparr>);
            s7 = (if update_focus
                  then (case active_view s6 of
                          None \<Rightarrow> log_calls [Desktop_focus_topmost_view] s6
                        | Some a \<Rightarrow>
                            (case find_view s6 a of
                               None \<Rightarrow> log_calls [Desktop_focus_topmost_view] s6
                             | Some v \<Rightarrow>
                                 if visible_on_all_workspaces v then s6
                                 else log_calls [Desktop_focus_topmost_view] s6))
                  else s6);
            s8 = log_calls [Osd_show, Cursor_update_focus, Desktop_update_top_layer_visibility,
                            Cosmic_workspace_set_active target True,
                            Ext_workspace_set_active target True] s7
        in ipc_notify_workspace_changed s8)"

text \<open>\<open>wl_list_remove\<close> of the link of the workspace at address \<open>p\<close>.\<close>

fun wl_list_remove :: "nat \<Rightarrow> workspace list \<Rightarrow> workspace list" where
  "wl_list_remove p [] = []"
| "wl_list_remove p (w # ws) = (if ws_ptr w = p then ws else w # wl_list_remove p ws)"

definition destroy_workspace :: "server \<Rightarrow> nat \<Rightarrow> server" where
  "destroy_workspace s p =
     log_calls [Scene_node_destroy p, Cosmic_workspace_destroy p, Ext_workspace_destroy p]
       (s\<lparr>workspaces_all := wl_list_remove p (workspaces_all s)\<rparr>)"

subsection \<open>Add, rename, remove\<close>

text \<open>Each returns the new state and the C function's boolean result.\<close>

definition workspaces_add_named :: "server \<Rightarrow> string \<Rightarrow> server \<times> bool" where
  "workspaces_add_named s name =
     (if name = [] then (s, False)
      else (ipc_notify_workspace_list_changed
              (workspace_state_persist (add_workspace s name)), True))"

definition rename_workspace :: "nat \<Rightarrow> string \<Rightarrow> workspace list \<Rightarrow> workspace list" where
  "rename_workspace p name ws = map (\<lambda>w. if ws_ptr w = p then w\<lparr>ws_name := name\<rparr> else w) ws"

definition workspaces_rename_index :: "server \<Rightarrow> int \<Rightarrow> string \<Rightarrow> server \<times> bool" where
  "workspaces_rename_index s index name =
     (if name = [] then (s, False)
      else case workspace_by_index s index of
        None \<Rightarrow> (s, False)
      | Some workspace \<Rightarrow>
          if ws_name workspace \<noteq> name
          then (ipc_notify_workspace_list_changed
                  (workspace_state_persist
                     (log_calls [Cosmic_workspace_set_name (ws_ptr workspace) name,
                                 Ext_workspace_set_name (ws_ptr workspace) name]
                        (s\<lparr>workspaces_all :=
                             rename_workspace (ws_ptr workspace) name (workspaces_all s)\<rparr>))), True)
          else (s, True))"

text \<open>
  \<open>link_next p ws\<close> is the member after the one at address \<open>p\<close>; \<open>None\<close> when
  \<open>workspace->link.next\<close> is the list head.
\<close>

fun link_next :: "nat \<Rightarrow> workspace list \<Rightarrow> workspace option" where
  "link_next p [] = None"
| "link_next p [w] = None"
| "link_next p (w # w' # ws) = (if ws_ptr w = p then Some w' else link_next p (w' # ws))"

definition workspaces_remove_index :: "server \<Rightarrow> int \<Rightarrow> server \<times> bool" where
  "workspaces_remove_index s index =
     (let count = length (workspaces_all s) in
      if count \<le> 1 then (s, False)
      else case workspace_by_index s index of
        None \<Rightarrow> (s, False)
      | Some workspace \<Rightarrow>
          (case (case link_next (ws_ptr workspace) (workspaces_all s) of
                   Some n \<Rightarrow> Some n
                 | None \<Rightarrow> (case workspaces_all s of [] \<Rightarrow> None | first # _ \<Rightarrow> Some first)) of
             None \<Rightarrow> (s, False)
           | Some fallback \<Rightarrow>
               if ws_ptr fallback = ws_ptr workspace then (s, False)
               else
                 let s1 = log_calls [Overlay_finish] s;
                     s2 = s1\<lparr>views := map (\<lambda>v. if view_workspace v = Some (ws_ptr workspace)
                                                then view_move_to_workspace v (ws_ptr fallback)
                                                else v) (views s1)\<rparr>;
                     s3 = (if workspaces_current s2 = ws_ptr workspace
                           then workspaces_switch_to s2 (ws_ptr fallback) True else s2);
                     s4 = (if workspaces_last s3 = Some (ws_ptr workspace)
                           then s3\<lparr>workspaces_last := Some (ws_ptr fallback)\<rparr> else s3);
                     s5 = destroy_workspace s4 (ws_ptr workspace)
                 in (ipc_notify_workspace_list_changed (workspace_state_persist s5), True)))"

subsection \<open>Occupied neighbours\<close>

text \<open>
  Modelled from the spec: the macro \<open>for_each_view\<close> and the criterion
  \<open>LAB_VIEW_CRITERIA_NO_OMNIPRESENT\<close> come from view.h, which is not part of the sources at
  hand; the loop visits the windows that are not visible on all workspaces.
\<close>

definition workspace_has_views :: "workspace \<Rightarrow> server \<Rightarrow> bool" where
  "workspace_has_views workspace s \<longleftrightarrow>
     list_ex (\<lambda>v. \<not> visible_on_all_workspaces v \<and> view_workspace v = Some (ws_ptr workspace))
       (views s)"

text \<open>
  A link of the circular list: the list head, or the link of the member at a position.
  \<open>n\<close> is the number of members.
\<close>

datatype link = Head | Node nat

fun next_link :: "nat \<Rightarrow> link \<Rightarrow> link" where
  "next_link n Head = (if n = 0 then Head else Node 0)"
| "next_link n (Node i) = (if Suc i < n then Node (Suc i) else Head)"

fun prev_link :: "nat \<Rightarrow> link \<Rightarrow> link" where
  "prev_link n Head = (if n = 0 then Head else Node (n - 1))"
| "prev_link n (Node i) = (if i = 0 then Head else Node (i - 1))"

definition step_link :: "nat \<Rightarrow> bool \<Rightarrow> link \<Rightarrow> link" where
  "step_link n reverse l = (if reverse then prev_link n l else next_link n l)"

text \<open>
  The \<open>while (true)\<close> loop of \<open>get_adjacent_occupied\<close>. \<open>start\<close> is the position of the
  anchor, \<open>occupied i\<close> tells whether the member at position \<open>i\<close> has views, and the result
  is the position of the workspace returned, \<open>None\<close> for \<open>NULL\<close>.
\<close>

function adjacent_loop ::
  "nat \<Rightarrow> bool \<Rightarrow> bool \<Rightarrow> nat \<Rightarrow> (nat \<Rightarrow> bool) \<Rightarrow> link \<Rightarrow> bool \<Rightarrow> nat option" where
  "adjacent_loop n wrap reverse start occupied Head has_wrapped =
     (if \<not> wrap then None
      else if has_wrapped then None
      else adjacent_loop n wrap reverse start occupied (step_link n reverse Head) True)"
| "adjacent_loop n wrap reverse start occupied (Node i) has_wrapped =
     (if i = start then None
      else if i \<noteq> start \<and> occupied i then Some i
      else adjacent_loop n wrap reverse start occupied (step_link n reverse (Node i)) has_wrapped)"
  by pat_completeness auto
termination
proof (relation "measure (\<lambda>(n, wrap, reverse, start, occupied, l, has_wrapped).
    (if has_wrapped then 0 else n + 3)
    + (case l of Head \<Rightarrow> 0 | Node i \<Rightarrow> if reverse then i + 1 else n - i + 1))")
  show "wf (measure (\<lambda>(n, wrap, reverse, start, occupied, l, has_wrapped).
    (if has_wrapped then 0 else n + 3)
    + (case l of Head \<Rightarrow> 0 | Node i \<Rightarrow> if reverse then i + 1 else n - i + 1)))"
    by simp
qed (auto simp: step_link_def split: link.splits)

fun find_position :: "nat \<Rightarrow> workspace list \<Rightarrow> nat option" where
  "find_position p [] = None"
| "find_position p (w # ws) =
     (if ws_ptr w = p then Some 0 else map_option Suc (find_position p ws))"

text \<open>
  \<open>current\<close> is the address of the anchor workspace, a member of the list; the result is
  the workspace returned.
\<close>

definition get_adjacent_occupied :: "server \<Rightarrow> nat \<Rightarrow> bool \<Rightarrow> bool \<Rightarrow> workspace option" where
  "get_adjacent_occupied s current wrap reverse =
     (let ws = workspaces_all s; n = length ws in
      case find_position current ws of
        None \<Rightarrow> None
      | Some start \<Rightarrow>
          (case adjacent_loop n wrap reverse start (\<lambda>i. workspace_has_views (ws ! i) s)
                  (step_link n reverse (Node start)) False of
             None \<Rightarrow> None
           | Some i \<Rightarrow> if i < n then Some (ws ! i) else None))"

definition get_prev_occupied :: "server \<Rightarrow> nat \<Rightarrow> bool \<Rightarrow> workspace option" where
  "get_prev_occupied s current wrap = get_adjacent_occupied s current wrap True"

definition get_next_occupied :: "server \<Rightarrow> nat \<Rightarrow> bool \<Rightarrow> workspace option" where
  "get_next_occupied s current wrap = get_adjacent_occupied s current wrap False"

section \<open>The IPC server (src/ipc.c)\<close>

text \<open>
  One connection. \<open>sent\<close> holds the bytes handed to \<open>write\<close> on the connection's socket
  in reply to commands; the result of the write is ignored by the callers modelled here.
  \<open>fd_open\<close> becomes false when \<open>ipc_client_destroy\<close> closes the connection.
\<close>

record ipc_client =
  client_server :: server
  fd_open :: bool
  subscribed_events :: bool
  recv_buf :: string
  sent :: string


definition ipc_send_str :: "ipc_client \<Rightarrow> string \<Rightarrow> ipc_client" where
  "ipc_send_str client msg = client\<lparr>sent := sent client @ msg\<rparr>"


subsection \<open>Queries\<close>

definition buf_add_fmt :: "string \<Rightarrow> string \<Rightarrow> string" where
  "buf_add_fmt buf text = buf @ text"

definition bool01 :: "bool \<Rightarrow> string" where
  "bool01 b = fmt_d (if b then 1 else 0)"

definition json_bool :: "bool \<Rightarrow> string" where
  "json_bool b = (if b then ''true'' else ''false'')"

text \<open>The name behind a workspace pointer, the empty string for \<open>NULL\<close>.\<close>

definition name_of_ptr :: "server \<Rightarrow> nat option \<Rightarrow> string" where
  "name_of_ptr s ws =
     (case ws of
        None \<Rightarrow> []
      | Some p \<Rightarrow> (case find (\<lambda>w. ws_ptr w = p) (workspaces_all s) of
                    None \<Rightarrow> [] | Some w \<Rightarrow> ws_name w))"

definition opt_str :: "string option \<Rightarrow> string" where
  "opt_str x = (case x of None \<Rightarrow> [] | Some t \<Rightarrow> t)"

definition hex_digit_lower :: "nat \<Rightarrow> char" where
  "hex_digit_lower n = ''0123456789abcdef'' ! (n mod 16)"

definition json_escape :: "char \<Rightarrow> string" where
  "json_escape p =
     (if p = CHR 0x22 then [CHR 0x5C, CHR 0x22]
      else if p = CHR 0x5C then [CHR 0x5C, CHR 0x5C]
      else if p = CHR 0x08 then [CHR 0x5C, CHR ''b'']
      else if p = CHR 0x0C then [CHR 0x5C, CHR ''f'']
      else if p = CHR 0x0A then [CHR 0x5C, CHR ''n'']
      else if p = CHR 0x0D then [CHR 0x5C, CHR ''r'']
      else if p = CHR 0x09 then [CHR 0x5C, CHR ''t'']
      else if p < CHR 0x20
        then [CHR 0x5C, CHR ''u'', CHR ''0'', CHR ''0'',
              hex_digit_lower (of_char p div 16), hex_digit_lower (of_char p mod 16)]
      else [p])"

definition buf_add_json_string :: "string \<Rightarrow> string \<Rightarrow> string" where
  "buf_add_json_string buf s =
     buf @ [CHR 0x22] @ concat (map json_escape (c_str s)) @ [CHR 0x22]"

fun query_views_loop :: "server \<Rightarrow> view list \<Rightarrow> string \<Rightarrow> string" where
  "query_views_loop s [] response = response"
| "query_views_loop s (view # rest) response =
     (if \<not> mapped view then query_views_loop s rest response
      else
        let ws_idx = workspace_index s (view_workspace view);
            ws_name = name_of_ptr s (view_workspace view);
            r1 = buf_add response ''view app_id='';
            r2 = buf_add_pct_encoded r1 (opt_str (app_id view));
            r3 = buf_add r2 '' title='';
            r4 = buf_add_pct_encoded r3 (opt_str (title view));
            r5 = buf_add_fmt r4 ('' workspace='' @ fmt_d ws_idx @ '' workspace_name='');
            r6 = buf_add_pct_encoded r5 ws_name;
            r7 = buf_add_fmt r6
                   ('' x='' @ fmt_d (cur_x view) @ '' y='' @ fmt_d (cur_y view)
                    @ '' w='' @ fmt_d (cur_width view) @ '' h='' @ fmt_d (cur_height view)
                    @ '' maximized='' @ bool01 (maximized view)
                    @ '' minimized='' @ bool01 (minimized view)
                    @ '' fullscreen='' @ bool01 (fullscreen view)
                    @ '' tiled='' @ bool01 (tiled view)
                    @ '' focused='' @ bool01 (active_view s = Some (view_ptr view)) @ [LF])
        in query_views_loop s rest r7)"

definition handle_query_views :: "server \<Rightarrow> string" where
  "handle_query_views s =
     (let current_ws = workspace_index s (Some (workspaces_current s));
          r1 = buf_add_fmt [] (''current_workspace='' @ fmt_d current_ws @ [LF]);
          r2 = buf_add r1 (''encoding=percent'' @ [LF]);
          r3 = buf_add r2 ''current_workspace_name='';
          r4 = buf_add_pct_encoded r3 (name_of_ptr s (Some (workspaces_current s)));
          r5 = buf_add_char r4 LF;
          r6 = query_views_loop s (views s) r5
      in buf_add r6 (''END'' @ [LF]))"

fun query_workspaces_loop :: "server \<Rightarrow> workspace list \<Rightarrow> int \<Rightarrow> string \<Rightarrow> string" where
  "query_workspaces_loop s [] idx response = response"
| "query_workspaces_loop s (ws # rest) idx response =
     (let r1 = buf_add_fmt response (''workspace index='' @ fmt_d idx @ '' name='');
          r2 = buf_add_pct_encoded r1 (ws_name ws);
          r3 = buf_add_fmt r2 ('' active='' @ bool01 (ws_ptr ws = workspaces_current s) @ [LF])
      in query_workspaces_loop s rest (idx + 1) r3)"

definition handle_query_workspaces :: "server \<Rightarrow> string" where
  "handle_query_workspaces s =
     (let current_ws = workspace_index s (Some (workspaces_current s));
          r1 = buf_add_fmt [] (''current='' @ fmt_d current_ws @ [LF]);
          r2 = buf_add r1 (''encoding=percent'' @ [LF]);
          r3 = query_workspaces_loop s (workspaces_all s) 1 r2
      in buf_add r3 (''END'' @ [LF]))"

fun query_views_json_loop :: "server \<Rightarrow> view list \<Rightarrow> bool \<Rightarrow> string \<Rightarrow> string" where
  "query_views_json_loop s [] first response = response"
| "query_views_json_loop s (view # rest) first response =
     (if \<not> mapped view then query_views_json_loop s rest first response
      else
        let r0 = (if \<not> first then buf_add_char response (CHR '','') else response);
            ws_idx = workspace_index s (view_workspace view);
            ws_name = name_of_ptr s (view_workspace view);
            output_name = (case view_output view of None \<Rightarrow> [] | Some (n, _) \<Rightarrow> n);
            r1 = buf_add (buf_add r0 ''{'') [CHR 0x22, CHR ''a'', CHR ''p'', CHR ''p'', CHR ''_'',
                   CHR ''i'', CHR ''d'', CHR 0x22, CHR '':''];
            r2 = buf_add_json_string r1 (opt_str (app_id view));
            r3 = buf_add r2 [CHR '','', CHR 0x22, CHR ''t'', CHR ''i'', CHR ''t'', CHR ''l'',
                   CHR ''e'', CHR 0x22, CHR '':''];
            r4 = buf_add_json_string r3 (opt_str (title view));
            r5 = buf_add_fmt r4 ([CHR '','', CHR 0x22] @ ''workspace'' @ [CHR 0x22, CHR '':'']
                   @ fmt_d ws_idx);
            r6 = buf_add r5 ([CHR '','', CHR 0x22] @ ''workspace_name'' @ [CHR 0x22, CHR '':'']);
            r7 = buf_add_json_string r6 ws_name;
            r8 = buf_add_fmt r7
                   ([CHR '','', CHR 0x22, CHR ''x'', CHR 0x22, CHR '':''] @ fmt_d (cur_x view)
                    @ [CHR '','', CHR 0x22, CHR ''y'', CHR 0x22, CHR '':''] @ fmt_d (cur_y view)
                    @ [CHR '','', CHR 0x22, CHR ''w'', CHR 0x22, CHR '':''] @ fmt_d (cur_width view)
                    @ [CHR '','', CHR 0x22, CHR ''h'', CHR 0x22, CHR '':''] @ fmt_d (cur_height view));
            r9 = buf_add r8 ([CHR '','', CHR 0x22] @ ''output'' @ [CHR 0x22, CHR '':'']);
            r10 = buf_add_json_string r9 output_name;
            usable = (case view_output view of
                        None \<Rightarrow> (0, 0, 0, 0) | Some (_, box) \<Rightarrow> box);
            r11 = (case usable of (ux, uy, uw, uh) \<Rightarrow>
                     buf_add_fmt r10
                       ([CHR '','', CHR 0x22] @ ''usable_x'' @ [CHR 0x22, CHR '':''] @ fmt_d ux
                        @ [CHR '','', CHR 0x22] @ ''usable_y'' @ [CHR 0x22, CHR '':''] @ fmt_d uy
                        @ [CHR '','', CHR 0x22] @ ''usable_w'' @ [CHR 0x22, CHR '':''] @ fmt_d uw
                        @ [CHR '','', CHR 0x22] @ ''usable_h'' @ [CHR 0x22, CHR '':''] @ fmt_d uh));
            r12 = buf_add_fmt r11
                    ([CHR '','', CHR 0x22] @ ''maximized'' @ [CHR 0x22, CHR '':'']
                     @ json_bool (maximized view)
                     @ [CHR '','', CHR 0x22] @ ''minimized'' @ [CHR 0x22, CHR '':'']
                     @ json_bool (minimized view)
                     @ [CHR '','', CHR 0x22] @ ''fullscreen'' @ [CHR 0x22, CHR '':'']
                     @ json_bool (fullscreen view)
                     @ [CHR '','', CHR 0x22] @ ''tiled'' @ [CHR 0x22, CHR '':'']
                     @ json_bool (tiled view)
                     @ [CHR '','', CHR 0x22] @ ''focused'' @ [CHR 0x22, CHR '':'']
                     @ json_bool (active_view s = Some (view_ptr view)));
            r13 = buf_add r12 ''}''
        in query_views_json_loop s rest False r13)"

definition json_head :: "server \<Rightarrow> string" where
  "json_head s =
     (let current_ws = workspace_index s (Some (workspaces_current s));
          r1 = buf_add [] ''{'';
          r2 = buf_add_fmt r1 ([CHR 0x22] @ ''current_workspace'' @ [CHR 0x22, CHR '':'']
                 @ fmt_d current_ws @ '','');
          r3 = buf_add r2 ([CHR 0x22] @ ''current_workspace_name'' @ [CHR 0x22, CHR '':''])
      in buf_add_json_string r3 (name_of_ptr s (Some (workspaces_current s))))"

definition handle_query_views_json :: "server \<Rightarrow> string" where
  "handle_query_views_json s =
     (let r1 = buf_add (json_head s) ([CHR '','', CHR 0x22] @ ''views'' @ [CHR 0x22] @ '':['');
          r2 = query_views_json_loop s (views s) True r1
      in buf_add r2 ('']}'' @ [LF]))"

fun query_workspaces_json_loop ::
  "server \<Rightarrow> workspace list \<Rightarrow> bool \<Rightarrow> int \<Rightarrow> string \<Rightarrow> string" where
  "query_workspaces_json_loop s [] first idx response = response"
| "query_workspaces_json_loop s (ws # rest) first idx response =
     (let r0 = (if \<not> first then buf_add_char response (CHR '','') else response);
          r1 = buf_add r0 ''{'';
          r2 = buf_add_fmt r1 ([CHR 0x22] @ ''index'' @ [CHR 0x22, CHR '':''] @ fmt_d idx @ '','');
          r3 = buf_add r2 ([CHR 0x22] @ ''name'' @ [CHR 0x22, CHR '':'']);
          r4 = buf_add_json_string r3 (ws_name ws);
          r5 = buf_add_fmt r4 ([CHR '','', CHR 0x22] @ ''active'' @ [CHR 0x22, CHR '':'']
                 @ json_bool (ws_ptr ws = workspaces_current s));
          r6 = buf_add r5 ''}''
      in query_workspaces_json_loop s rest False (idx + 1) r6)"

definition handle_query_workspaces_json :: "server \<Rightarrow> string" where
  "handle_query_workspaces_json s =
     (let r1 = buf_add (json_head s)
                 ([CHR '','', CHR 0x22] @ ''workspaces'' @ [CHR 0x22] @ '':['');
          r2 = query_workspaces_json_loop s (workspaces_all s) True 1 r1
      in buf_add r2 ('']}'' @ [LF]))"

subsection \<open>Command dispatch\<close>

text \<open>
  The action facility (action.c) is a collaborator: \<open>action_known\<close> tells whether
  \<open>action_create\<close> returns an action for a name, \<open>action_is_valid\<close> whether the action has
  its required arguments, and \<open>actions_run\<close> is the effect of running it.
\<close>

record action_api =
  action_known :: "string \<Rightarrow> bool"
  action_is_valid :: "string \<Rightarrow> (string \<times> string) list \<Rightarrow> bool"
  actions_run :: "string \<Rightarrow> (string \<times> string) list \<Rightarrow> server \<Rightarrow> server"

text \<open>The chain of comparisons at the head of \<open>handle_command\<close>, on the stripped line.\<close>

datatype command =
    Blank | Ping | Subscribe_events | List_views | List_views_json
  | List_workspaces | List_workspaces_json
  | Workspace_add | Workspace_rename | Workspace_remove | Action

definition dispatch :: "string \<Rightarrow> command" where
  "dispatch line =
     (if line = [] then Blank
      else if strcasecmp_eq line ''ping'' then Ping
      else if strcasecmp_eq line ''subscribe-events'' then Subscribe_events
      else if strcasecmp_eq line ''list-views'' then List_views
      else if strcasecmp_eq line ''list-views-json'' then List_views_json
      else if strcasecmp_eq line ''list-workspaces'' then List_workspaces
      else if strcasecmp_eq line ''list-workspaces-json'' then List_workspaces_json
      else if strncasecmp_eq line ''workspace-add'' (length ''workspace-add'')
        then Workspace_add
      else if strncasecmp_eq line ''workspace-rename'' (length ''workspace-rename'')
        then Workspace_rename
      else if strncasecmp_eq line ''workspace-remove'' (length ''workspace-remove'')
        then Workspace_remove
      else Action)"

text \<open>The tokens after the first one: \<open>strtok_r(line, ...)\<close>, then the loop on the rest.\<close>

definition arg_tokens :: "string \<Rightarrow> string list" where
  "arg_tokens line = (case strtok_r line of None \<Rightarrow> [] | Some (cmd, save) \<Rightarrow> strtok_all save)"

fun workspace_add_args :: "string list \<Rightarrow> string option \<Rightarrow> string option" where
  "workspace_add_args [] name = name"
| "workspace_add_args (tok # toks) name =
     (case split_eq tok of
        None \<Rightarrow> workspace_add_args toks name
      | Some (key, val) \<Rightarrow>
          workspace_add_args toks (if strcasecmp_eq key ''name'' then Some val else name))"

fun workspace_rename_args ::
  "string list \<Rightarrow> string option \<times> int \<Rightarrow> string option \<times> int" where
  "workspace_rename_args [] acc = acc"
| "workspace_rename_args (tok # toks) (name, index) =
     (case split_eq tok of
        None \<Rightarrow> workspace_rename_args toks (name, index)
      | Some (key, val) \<Rightarrow>
          workspace_rename_args toks
            (if strcasecmp_eq key ''name'' then (Some val, index)
             else if strcasecmp_eq key ''index'' then (name, atoi val)
             else (name, index)))"

fun workspace_remove_args :: "string list \<Rightarrow> int \<Rightarrow> int" where
  "workspace_remove_args [] index = index"
| "workspace_remove_args (tok # toks) index =
     (case split_eq tok of
        None \<Rightarrow> workspace_remove_args toks index
      | Some (key, val) \<Rightarrow>
          workspace_remove_args toks (if strcasecmp_eq key ''index'' then atoi val else index))"

fun action_args :: "string list \<Rightarrow> (string \<times> string) list" where
  "action_args [] = []"
| "action_args (token # toks) =
     (case split_eq token of
        None \<Rightarrow> action_args toks
      | Some (key, val) \<Rightarrow> (key, val) # action_args toks)"

definition handle_workspace_add :: "ipc_client \<Rightarrow> string \<Rightarrow> ipc_client" where
  "handle_workspace_add client line =
     (let server = client_server client;
          name = workspace_add_args (arg_tokens line) None;
          decoded =
            (if name = None \<or> name = Some []
             then Some (fmt_d (int (length (workspaces_all server)) + 1))
             else map_option c_str (ipc_pct_decode_inplace (the name)))
      in case decoded of
           None \<Rightarrow> ipc_send_str client (''ERROR invalid percent-encoding in name'' @ [LF])
         | Some name' \<Rightarrow>
             (case workspaces_add_named server name' of
                (server', ok) \<Rightarrow>
                  if \<not> ok then ipc_send_str client (''ERROR failed to add workspace'' @ [LF])
                  else ipc_send_str (client\<lparr>client_server := server'\<rparr>) (''OK'' @ [LF])))"

definition handle_workspace_rename :: "ipc_client \<Rightarrow> string \<Rightarrow> ipc_client" where
  "handle_workspace_rename client line =
     (let server = client_server client in
      case workspace_rename_args (arg_tokens line) (None, 0) of
        (name, index) \<Rightarrow>
          if index < 1 \<or> name = None \<or> name = Some []
          then ipc_send_str client
                 (''ERROR usage: workspace-rename index=N name=...'' @ [LF])
          else case ipc_pct_decode_inplace (the name) of
            None \<Rightarrow> ipc_send_str client (''ERROR invalid percent-encoding in name'' @ [LF])
          | Some d \<Rightarrow>
              (case workspaces_rename_index server index (c_str d) of
                 (server', ok) \<Rightarrow>
                   if \<not> ok
                   then ipc_send_str client (''ERROR failed to rename workspace'' @ [LF])
                   else ipc_send_str (client\<lparr>client_server := server'\<rparr>) (''OK'' @ [LF])))"

definition handle_workspace_remove :: "ipc_client \<Rightarrow> string \<Rightarrow> ipc_client" where
  "handle_workspace_remove client line =
     (let server = client_server client;
          index = workspace_remove_args (arg_tokens line) 0
      in if index < 1
         then ipc_send_str client (''ERROR usage: workspace-remove index=N'' @ [LF])
         else case workspaces_remove_index server index of
           (server', ok) \<Rightarrow>
             if \<not> ok then ipc_send_str client (''ERROR failed to remove workspace'' @ [LF])
             else ipc_send_str (client\<lparr>client_server := server'\<rparr>) (''OK'' @ [LF]))"

definition handle_action :: "action_api \<Rightarrow> ipc_client \<Rightarrow> string \<Rightarrow> ipc_client" where
  "handle_action api client line =
     (case strtok_r line of
        None \<Rightarrow> ipc_send_str client (''ERROR no action'' @ [LF])
      | Some (action_name, saveptr) \<Rightarrow>
          if \<not> action_known api action_name
          then ipc_send_str client (''ERROR unknown action'' @ [LF])
          else
            let args = action_args (strtok_all saveptr) in
            if \<not> action_is_valid api action_name args
            then ipc_send_str client (''ERROR missing required argument'' @ [LF])
            else ipc_send_str
                   (client\<lparr>client_server :=
                       actions_run api action_name args (client_server client)\<rparr>)
                   (''OK'' @ [LF]))"

definition handle_command :: "action_api \<Rightarrow> ipc_client \<Rightarrow> string \<Rightarrow> ipc_client" where
  "handle_command api client line0 =
     (let server = client_server client; line = string_strip line0 in
      case dispatch line of
        Blank \<Rightarrow> client
      | Ping \<Rightarrow> ipc_send_str client (''OK'' @ [LF])
      | Subscribe_events \<Rightarrow>
          ipc_send_str (client\<lparr>subscribed_events := True\<rparr>) (''OK subscribed-events'' @ [LF])
      | List_views \<Rightarrow> ipc_send_str client (handle_query_views server)
      | List_views_json \<Rightarrow> ipc_send_str client (handle_query_views_json server)
      | List_workspaces \<Rightarrow> ipc_send_str client (handle_query_workspaces server)
      | List_workspaces_json \<Rightarrow> ipc_send_str client (handle_query_workspaces_json server)
      | Workspace_add \<Rightarrow> handle_workspace_add client line
      | Workspace_rename \<Rightarrow> handle_workspace_rename client line
      | Workspace_remove \<Rightarrow> handle_workspace_remove client line
      | Action \<Rightarrow> handle_action api client line)"

subsection \<open>Connection framing\<close>

text \<open>
  \<open>strchr(start, '\n')\<close> followed by \<open>*nl = '\0'\<close>: the text before the first line feed and
  the text after it, \<open>None\<close> when there is no line feed.
\<close>

fun split_line :: "string \<Rightarrow> (string \<times> string) option" where
  "split_line [] = None"
| "split_line (c # s) =
     (if c = LF then Some ([], s)
      else map_option (\<lambda>(line, rest). (c # line, rest)) (split_line s))"





section \<open>Scenarios\<close>

text \<open>The public mutations of the registry, applied in sequence.\<close>

datatype registry_op = Op_add string | Op_rename int string | Op_remove int

fun apply_op :: "server \<Rightarrow> registry_op \<Rightarrow> server" where
  "apply_op s (Op_add name) = fst (workspaces_add_named s name)"
| "apply_op s (Op_rename index name) = fst (workspaces_rename_index s index name)"
| "apply_op s (Op_remove index) = fst (workspaces_remove_index s index)"

text \<open>A server before \<open>workspaces_init\<close>, with no windows and a writable state directory.\<close>

definition server0 :: server where
  "server0 = \<lparr>workspaces_all = [], workspaces_current = 0, workspaces_last = None,
     views = [], active_view = None, grabbed_view = None, next_ptr = 1,
     state_file = None, fs_writable = True, broadcast = [], calls = []\<rparr>"

text \<open>The registry \<open>[A, B, C]\<close> with \<open>B\<close> current.\<close>

definition server_abc :: server where
  "server_abc = \<lparr>workspaces_all =
       [\<lparr>ws_ptr = 1, ws_name = ''A''\<rparr>, \<lparr>ws_ptr = 2, ws_name = ''B''\<rparr>,
        \<lparr>ws_ptr = 3, ws_name = ''C''\<rparr>],
     workspaces_current = 2, workspaces_last = None,
     views = [], active_view = None, grabbed_view = None, next_ptr = 4,
     state_file = None, fs_writable = True, broadcast = [], calls = []\<rparr>"

text \<open>A mapped window on the workspace at address \<open>2\<close>.\<close>

definition view_on_b :: view where
  "view_on_b = \<lparr>view_ptr = 10, view_workspace = Some 2, visible_on_all_workspaces = False,
     mapped = True, app_id = Some ''term'', title = Some ''shell'',
     cur_x = 0, cur_y = 0, cur_width = 800, cur_height = 600,
     maximized = False, minimized = False, fullscreen = False, tiled = False,
     view_output = None\<rparr>"

text \<open>A registry whose only workspace has a name that ends in a carriage return.\<close>

definition server_cr :: server where
  "server_cr = server0\<lparr>workspaces_all := [\<lparr>ws_ptr = 1, ws_name = [CHR ''a'', CR]\<rparr>],
     workspaces_current := 1, next_ptr := 2\<rparr>"

text \<open>An action facility that knows no action, and a fresh connection after startup.\<close>

definition api0 :: action_api where
  "api0 = \<lparr>action_known = (\<lambda>name. False), action_is_valid = (\<lambda>name args. False),
     actions_run = (\<lambda>name args s. s)\<rparr>"

definition client0 :: ipc_client where
  "client0 = \<lparr>client_server = workspaces_init server0, fd_open = True,
     subscribed_events = False, recv_buf = [], sent = []\<rparr>"

text \<open>
  The framing as the specification words it: the text between line feeds, in order; all
  pieces but the last are the complete lines, the last piece is the partial line that
  stays in the buffer.
\<close>

fun split_lf :: "string \<Rightarrow> string list" where
  "split_lf [] = [] # []"
| "split_lf (c # s) =
     (if c = LF then [] # split_lf s
      else (case split_lf s of [] \<Rightarrow> [c] # [] | l # ls \<Rightarrow> (c # l) # ls))"

definition complete_lines :: "string \<Rightarrow> string list" where
  "complete_lines text = butlast (split_lf text)"

definition partial_line :: "string \<Rightarrow> string" where
  "partial_line text = last (split_lf text)"

text \<open>
  The escapes as the specification words them: a percent sign is to be followed by two
  hexadecimal digits. An escape is truncated when fewer than two bytes follow the percent
  sign, and invalid when one of the two is not a hexadecimal digit.
\<close>

definition isxdigit :: "char \<Rightarrow> bool" where
  "isxdigit c \<longleftrightarrow>
     (CHR ''0'' \<le> c \<and> c \<le> CHR ''9'')
   \<or> (CHR ''a'' \<le> c \<and> c \<le> CHR ''f'')
   \<or> (CHR ''A'' \<le> c \<and> c \<le> CHR ''F'')"

fun has_bad_escape :: "string \<Rightarrow> bool" where
  "has_bad_escape [] = False"
| "has_bad_escape (c # s) =
     (if c \<noteq> CHR ''%'' then has_bad_escape s
      else (case s of
              h # l # rest \<Rightarrow> \<not> (isxdigit h \<and> isxdigit l) \<or> has_bad_escape rest
            | _ \<Rightarrow> True))"

text \<open>
  The search as the specification words it: the positions visited from the anchor at
  position \<open>start\<close>, in order. The search steps away from the anchor in one direction up
  to the end of the list; with \<open>wrap\<close> it goes on from the other end of the list up to
  the anchor. The anchor is not among them.
\<close>

definition search_order :: "nat \<Rightarrow> nat \<Rightarrow> bool \<Rightarrow> bool \<Rightarrow> nat list" where
  "search_order n start wrap reverse =
     (if reverse then rev [0..<start] @ (if wrap then rev [Suc start..<n] else [])
      else [Suc start..<n] @ (if wrap then [0..<start] else []))"

text \<open>A mapped window on the workspace at address \<open>3\<close>.\<close>

definition view_on_c :: view where
  "view_on_c = view_on_b\<lparr>view_ptr := 11, view_workspace := Some 3\<rparr>"


section \<open>Percent-encoding: the round trip\<close>

lemma buf_add_pct_encoded_append:
  "buf_add_pct_encoded buf s = buf @ buf_add_pct_encoded [] s"
proof (induction s arbitrary: buf)
  case Nil
  show ?case by simp
next
  case (Cons p s)
  show ?case
    using Cons.IH [of "buf_add_char buf p"] Cons.IH [of "buf_add_fmt_pct02X buf p"]
      Cons.IH [of "buf_add_char [] p"] Cons.IH [of "buf_add_fmt_pct02X [] p"]
    by (simp add: buf_add_char_def buf_add_fmt_pct02X_def)
qed

lemma unreserved_not_special:
  "ipc_pct_is_unreserved c \<Longrightarrow> c \<noteq> CHR ''%'' \<and> c \<noteq> NUL"
  by (auto simp: ipc_pct_is_unreserved_def NUL_def)

lemma hex_digit_upper_cases:
  assumes "k < 16"
  shows "ipc_hex_nibble (hex_digit_upper k) = int k \<and> hex_digit_upper k \<noteq> NUL"
proof -
  from assms have "k = 0 \<or> k = 1 \<or> k = 2 \<or> k = 3 \<or> k = 4 \<or> k = 5 \<or> k = 6 \<or> k = 7
      \<or> k = 8 \<or> k = 9 \<or> k = 10 \<or> k = 11 \<or> k = 12 \<or> k = 13 \<or> k = 14 \<or> k = 15"
    by arith
  then show ?thesis
    by (elim disjE) (simp_all add: hex_digit_upper_def ipc_hex_nibble_def NUL_def)
qed

lemma nibbles_join:
  fixes n :: nat
  shows "push_bit 4 (int (n div 16)) OR int (n mod 16) = int n"
proof -
  have "int (n mod 16) OR push_bit 4 (int (n div 16))
      = concat_bit 4 (int (n mod 16)) (int (n div 16))"
    by (simp add: concat_bit_def take_bit_eq_mod)
  also have "\<dots> = take_bit 4 (int (n mod 16)) + push_bit 4 (int (n div 16))"
    by (rule concat_bit_eq)
  also have "\<dots> = int (n mod 16) + int (n div 16) * 16"
    by (simp add: take_bit_eq_mod push_bit_eq_mult)
  also have "\<dots> = int n"
    by (simp add: zmod_int zdiv_int)
  finally show ?thesis by (simp add: or.commute)
qed

lemma byte_nibbles:
  "(of_char c :: nat) div 16 < 16" "(of_char c :: nat) mod 16 < 16"
proof -
  have "(of_char c :: nat) < 16 * 16"
    using nat_of_char_less_256 [of c] by simp
  then show "(of_char c :: nat) div 16 < 16"
    by (simp add: div_less_iff_less_mult)
  show "(of_char c :: nat) mod 16 < 16"
    by simp
qed

lemma decode_escape_byte:
  "char_of (push_bit 4 (ipc_hex_nibble (hex_digit_upper (of_char c div 16)))
      OR ipc_hex_nibble (hex_digit_upper (of_char c mod 16))) = c"
proof -
  let ?n = "of_char c :: nat"
  note lt = byte_nibbles [of c]
  have "char_of (push_bit 4 (int (?n div 16)) OR int (?n mod 16)) = char_of (int ?n)"
    by (simp only: nibbles_join)
  also have "\<dots> = char_of ?n"
    by (simp add: char_of_def bit_simps flip: even_of_nat)
  also have "\<dots> = c" by simp
  finally show ?thesis
    using hex_digit_upper_cases [OF lt(1)] hex_digit_upper_cases [OF lt(2)] by simp
qed

lemma decode_encoded_byte:
  assumes "p \<noteq> NUL" and "ipc_pct_decode_inplace rest = Some r"
  shows "ipc_pct_decode_inplace
           ((if ipc_pct_is_unreserved p then buf_add_char [] p
             else buf_add_fmt_pct02X [] p) @ rest) = Some (p # r)"
proof (cases "ipc_pct_is_unreserved p")
  case True
  then show ?thesis
    using assms unreserved_not_special [of p] by (simp add: buf_add_char_def)
next
  case False
  note lt = byte_nibbles [of p]
  show ?thesis
    using False assms hex_digit_upper_cases [OF lt(1)] hex_digit_upper_cases [OF lt(2)]
      decode_escape_byte [of p]
    by (simp add: buf_add_fmt_pct02X_def NUL_def Let_def)
qed

text \<open>
  C2. For every NUL-free byte string \<open>s\<close>, percent-decoding the percent-encoding of \<open>s\<close>
  succeeds and returns exactly \<open>s\<close>; control bytes, the percent sign and the bytes of
  multi-byte UTF-8 sequences are covered, since \<open>s\<close> ranges over all NUL-free byte lists.
\<close>

theorem pct_decode_encode_roundtrip:
  "NUL \<notin> set s \<Longrightarrow> ipc_pct_decode_inplace (buf_add_pct_encoded [] s) = Some s"
proof (induction s)
  case Nil
  show ?case by simp
next
  case (Cons p s)
  then have p: "p \<noteq> NUL" and IH: "ipc_pct_decode_inplace (buf_add_pct_encoded [] s) = Some s"
    by auto
  have "buf_add_pct_encoded [] (p # s)
      = (if ipc_pct_is_unreserved p then buf_add_char [] p else buf_add_fmt_pct02X [] p)
        @ buf_add_pct_encoded [] s"
    using p buf_add_pct_encoded_append
      [of "if ipc_pct_is_unreserved p then buf_add_char [] p else buf_add_fmt_pct02X [] p" s]
    by simp
  then show ?case
    using decode_encoded_byte [OF p IH] by simp
qed

theorem pct_decode_encode_roundtrip_witness:
  "NUL \<notin> set [CHR 0x01, CHR ''%'', CHR 0xC3, CHR 0xA9, CHR '' '', CHR ''a'']
   \<and> buf_add_pct_encoded [] [CHR 0x01, CHR ''%'', CHR 0xC3, CHR 0xA9, CHR '' '', CHR ''a'']
       = ''%01%25%C3%A9%20a''
   \<and> ipc_pct_decode_inplace ''%01%25%C3%A9%20a''
       = Some [CHR 0x01, CHR ''%'', CHR 0xC3, CHR 0xA9, CHR '' '', CHR ''a'']"
proof -
  have h: "NUL \<notin> set [CHR 0x01, CHR ''%'', CHR 0xC3, CHR 0xA9, CHR '' '', CHR ''a'']"
    by (simp add: NUL_def)
  have e: "buf_add_pct_encoded [] [CHR 0x01, CHR ''%'', CHR 0xC3, CHR 0xA9, CHR '' '', CHR ''a'']
       = ''%01%25%C3%A9%20a''"
    by (simp add: NUL_def ipc_pct_is_unreserved_def buf_add_char_def buf_add_fmt_pct02X_def
        hex_digit_upper_def)
  show ?thesis
    using h e pct_decode_encode_roundtrip [OF h] by simp
qed


section \<open>The registry is never empty\<close>

lemma workspaces_all_log_calls [simp]: "workspaces_all (log_calls cs s) = workspaces_all s"
  by (simp add: log_calls_def)

lemma workspaces_all_persist [simp]:
  "workspaces_all (workspace_state_persist s) = workspaces_all s"
  by (simp add: workspace_state_persist_def)

lemma workspaces_all_list_changed [simp]:
  "workspaces_all (ipc_notify_workspace_list_changed s) = workspaces_all s"
  by (simp add: ipc_notify_workspace_list_changed_def ipc_broadcast_event_def)

lemma workspaces_all_switch_to [simp]:
  "workspaces_all (workspaces_switch_to s target f) = workspaces_all s"
  by (simp add: workspaces_switch_to_def Let_def ipc_notify_workspace_changed_def
      ipc_broadcast_event_def log_calls_def split: option.splits)

lemma workspaces_all_add_workspace [simp]:
  "workspaces_all (add_workspace s name)
     = workspaces_all s @ [\<lparr>ws_ptr = next_ptr s, ws_name = name\<rparr>]"
  by (simp add: add_workspace_def Let_def)

lemma length_wl_list_remove: "length xs - 1 \<le> length (wl_list_remove p xs)"
  by (induction xs) auto

lemma length_init: "length (workspaces_all (workspaces_init s)) = 1"
  by (simp add: workspaces_init_def Let_def)

lemma length_add_named:
  "length (workspaces_all s) \<le> length (workspaces_all (fst (workspaces_add_named s name)))"
  by (simp add: workspaces_add_named_def)

lemma length_rename_index:
  "length (workspaces_all (fst (workspaces_rename_index s index name)))
     = length (workspaces_all s)"
  by (simp add: workspaces_rename_index_def rename_workspace_def split: option.splits)

lemma length_remove_index:
  assumes "1 \<le> length (workspaces_all s)"
  shows "1 \<le> length (workspaces_all (fst (workspaces_remove_index s index)))"
proof (cases "length (workspaces_all s) \<le> 1")
  case True
  then show ?thesis using assms by (simp add: workspaces_remove_index_def)
next
  case False
  then have two: "2 \<le> length (workspaces_all s)" by simp
  have rm: "1 \<le> length (wl_list_remove p (workspaces_all s))" for p
    using length_wl_list_remove [of "workspaces_all s" p] two by arith
  show ?thesis
    using assms rm
    by (simp add: workspaces_remove_index_def Let_def destroy_workspace_def
        split: option.splits list.splits)
qed

lemma apply_op_nonempty:
  "1 \<le> length (workspaces_all s) \<Longrightarrow> 1 \<le> length (workspaces_all (apply_op s op))"
proof (cases op)
  case (Op_add name)
  assume "1 \<le> length (workspaces_all s)"
  then show ?thesis using Op_add length_add_named [of s name] by simp
next
  case (Op_rename index name)
  assume "1 \<le> length (workspaces_all s)"
  then show ?thesis using Op_rename length_rename_index [of s index name] by simp
next
  case (Op_remove index)
  assume "1 \<le> length (workspaces_all s)"
  then show ?thesis using Op_remove length_remove_index [of s index] by simp
qed

lemma foldl_apply_op_nonempty:
  "1 \<le> length (workspaces_all s) \<Longrightarrow> 1 \<le> length (workspaces_all (foldl apply_op s ops))"
proof (induction ops arbitrary: s)
  case Nil
  then show ?case by simp
next
  case (Cons op ops)
  from Cons.prems have "1 \<le> length (workspaces_all (apply_op s op))"
    by (rule apply_op_nonempty)
  then have "1 \<le> length (workspaces_all (foldl apply_op (apply_op s op) ops))"
    by (rule Cons.IH)
  then show ?case by simp
qed

text \<open>
  C1. Whatever sequence of add, rename and remove operations is applied to the registry
  that \<open>workspaces_init\<close> builds, the registry keeps at least one member; and on a registry
  of size 1 \<open>workspaces_remove_index\<close> returns \<open>false\<close> and leaves the whole state, hence
  the registry, \<open>current\<close> and \<open>last\<close>, as it was.
\<close>

theorem registry_never_empty:
  "1 \<le> length (workspaces_all (foldl apply_op (workspaces_init s0) ops))
   \<and> (length (workspaces_all s) = 1 \<longrightarrow> workspaces_remove_index s index = (s, False))"
proof
  show "1 \<le> length (workspaces_all (foldl apply_op (workspaces_init s0) ops))"
    by (rule foldl_apply_op_nonempty) (simp add: length_init)
  show "length (workspaces_all s) = 1 \<longrightarrow> workspaces_remove_index s index = (s, False)"
    by (simp add: workspaces_remove_index_def)
qed

theorem registry_never_empty_witness:
  "length (workspaces_all (workspaces_init server0)) = 1
   \<and> workspaces_remove_index (workspaces_init server0) 1 = (workspaces_init server0, False)
   \<and> 1 \<le> length (workspaces_all (foldl apply_op (workspaces_init server0)
            [Op_add ''web'', Op_remove 1, Op_remove 1, Op_rename 1 ''mail'', Op_remove 1]))"
  using registry_never_empty [of server0
      "[Op_add ''web'', Op_remove 1, Op_remove 1, Op_rename 1 ''mail'', Op_remove 1]"
      "workspaces_init server0" 1]
  by (simp add: length_init)

section \<open>Switching the current workspace\<close>

lemma workspace_index_member:
  "p \<in> ws_ptr ` set ws \<Longrightarrow> idx \<le> workspace_index_loop ws p idx"
proof (induction ws arbitrary: idx)
  case Nil
  then show ?case by simp
next
  case (Cons w ws)
  show ?case
  proof (cases "ws_ptr w = p")
    case True
    then show ?thesis by simp
  next
    case False
    with Cons.prems have "p \<in> ws_ptr ` set ws" by auto
    from Cons.IH [OF this, of "idx + 1"] False show ?thesis by simp
  qed
qed

text \<open>
  C3. For a member \<open>target\<close> of the registry other than the current workspace,
  \<open>workspaces_switch_to\<close> makes \<open>target\<close> current, makes the workspace that was current
  \<open>last\<close>, leaves the registry as it is and emits exactly one event, a workspace-changed
  event that carries the 1-based position of \<open>target\<close>.
\<close>

theorem switch_to_sets_current_and_last:
  assumes "target \<in> ws_ptr ` set (workspaces_all s)"
    and "target \<noteq> workspaces_current s"
  shows "workspaces_current (workspaces_switch_to s target update_focus) = target
    \<and> workspaces_last (workspaces_switch_to s target update_focus) = Some (workspaces_current s)
    \<and> workspaces_all (workspaces_switch_to s target update_focus) = workspaces_all s
    \<and> broadcast (workspaces_switch_to s target update_focus)
        = broadcast s @ [''EVENT workspace-changed current=''
            @ fmt_d (workspace_index s (Some target)) @ [LF]]
    \<and> 1 \<le> workspace_index s (Some target)"
  using assms(2) workspace_index_member [OF assms(1), of 1]
  by (simp add: workspaces_switch_to_def Let_def ipc_notify_workspace_changed_def
      ipc_broadcast_event_def log_calls_def workspace_index_def split: option.splits)

theorem switch_to_sets_current_and_last_witness:
  "3 \<in> ws_ptr ` set (workspaces_all server_abc)
   \<and> 3 \<noteq> workspaces_current server_abc
   \<and> map ws_name (workspaces_all server_abc) = [''A'', ''B'', ''C'']
   \<and> workspaces_current server_abc = 2
   \<and> workspaces_current (workspaces_switch_to server_abc 3 True) = 3
   \<and> workspaces_last (workspaces_switch_to server_abc 3 True) = Some 2
   \<and> broadcast (workspaces_switch_to server_abc 3 True)
       = [''EVENT workspace-changed current=3'' @ [LF]]"
proof -
  have m: "3 \<in> ws_ptr ` set (workspaces_all server_abc)"
    by (simp add: server_abc_def)
  have n: "3 \<noteq> workspaces_current server_abc"
    by (simp add: server_abc_def)
  have i: "fmt_d (workspace_index server_abc (Some 3)) = ''3''"
    by (simp add: server_abc_def workspace_index_def fmt_d_def fmt_zu.simps)
  show ?thesis
    using m n i switch_to_sets_current_and_last [OF m n, of True]
    by (simp add: server_abc_def)
qed


section \<open>The search for an occupied neighbour\<close>

lemma step_link_valid:
  assumes "\<forall>k. l = Node k \<longrightarrow> k < n"
  shows "\<forall>k. step_link n reverse l = Node k \<longrightarrow> k < n"
  using assms by (cases l) (auto simp: step_link_def)

lemma adjacent_loop_result:
  "adjacent_loop n wrap reverse start occupied l has_wrapped = Some i
     \<Longrightarrow> \<forall>k. l = Node k \<longrightarrow> k < n
     \<Longrightarrow> i \<noteq> start \<and> occupied i \<and> i < n"
proof (induction n wrap reverse start occupied l has_wrapped
    rule: adjacent_loop.induct)
  case (1 n wrap reverse start occupied has_wrapped)
  have v: "\<forall>k. step_link n reverse Head = Node k \<longrightarrow> k < n"
    by (rule step_link_valid) simp
  from "1.prems"(1) have w: "wrap" and h: "\<not> has_wrapped"
    and r: "adjacent_loop n wrap reverse start occupied (step_link n reverse Head) True = Some i"
    by (auto split: if_splits)
  show ?case using "1.IH" w h r v by simp
next
  case (2 n wrap reverse start occupied j has_wrapped)
  from "2.prems"(2) have j: "j < n" by simp
  have v: "\<forall>k. step_link n reverse (Node j) = Node k \<longrightarrow> k < n"
    by (rule step_link_valid) (simp add: j)
  show ?case
  proof (cases "j \<noteq> start \<and> occupied j")
    case True
    then show ?thesis using "2.prems"(1) j by simp
  next
    case False
    with "2.prems"(1) have ns: "j \<noteq> start"
      and r: "adjacent_loop n wrap reverse start occupied (step_link n reverse (Node j))
                has_wrapped = Some i"
      by (auto split: if_splits)
    show ?thesis using "2.IH" ns False r v by simp
  qed
qed

lemma find_position_Some:
  "find_position p ws = Some k \<Longrightarrow> k < length ws \<and> ws_ptr (ws ! k) = p"
proof (induction ws arbitrary: k)
  case Nil
  then show ?case by simp
next
  case (Cons w ws)
  then show ?case by (cases "ws_ptr w = p") auto
qed

lemma get_adjacent_occupied_result:
  assumes d: "distinct (map ws_ptr (workspaces_all s))"
    and r: "get_adjacent_occupied s anchor wrap reverse = Some w"
  shows "w \<in> set (workspaces_all s) \<and> ws_ptr w \<noteq> anchor \<and> workspace_has_views w s"
proof -
  let ?ws = "workspaces_all s"
  let ?n = "length ?ws"
  let ?occ = "\<lambda>i. workspace_has_views (?ws ! i) s"
  from r obtain start where st: "find_position anchor ?ws = Some start"
    by (auto simp: get_adjacent_occupied_def Let_def split: option.splits)
  with r obtain i where
    lp: "adjacent_loop ?n wrap reverse start ?occ (step_link ?n reverse (Node start)) False
           = Some i"
    and w: "w = ?ws ! i"
    by (auto simp: get_adjacent_occupied_def Let_def split: option.splits if_splits)
  from find_position_Some [OF st] have sn: "start < ?n" and sp: "ws_ptr (?ws ! start) = anchor"
    by auto
  have v: "\<forall>k. step_link ?n reverse (Node start) = Node k \<longrightarrow> k < ?n"
    by (rule step_link_valid) (simp add: sn)
  from adjacent_loop_result [OF lp v] have ne: "i \<noteq> start" and oc: "?occ i" and il: "i < ?n"
    by auto
  have "map ws_ptr ?ws ! i \<noteq> map ws_ptr ?ws ! start"
    using nth_eq_iff_index_eq [OF d, of i start] ne il sn by simp
  then have "ws_ptr w \<noteq> anchor"
    using w il sn sp by simp
  then show ?thesis using w il oc by simp
qed

lemma find_append:
  "find P (xs @ ys) = (case find P xs of Some r \<Rightarrow> Some r | None \<Rightarrow> find P ys)"
  by (induction xs) auto

lemma forward_after_wrap:
  "i \<le> start \<Longrightarrow> start < n
     \<Longrightarrow> adjacent_loop n wrap False start occupied (Node i) True = find occupied [i..<start]"
proof (induction "start - i" arbitrary: i)
  case 0
  then have "i = start" by simp
  then show ?case by (subst adjacent_loop.simps(2)) simp
next
  case (Suc d)
  then have lt: "i < start" and n: "Suc i < n" by simp_all
  have u: "[i..<start] = i # [Suc i..<start]"
    using lt by (simp add: upt_conv_Cons)
  have s: "step_link n False (Node i) = Node (Suc i)"
    using n by (simp add: step_link_def)
  from Suc(1) [of "Suc i"] Suc(2,3,4) lt
  have IH: "adjacent_loop n wrap False start occupied (Node (Suc i)) True
      = find occupied [Suc i..<start]"
    by (simp del: adjacent_loop.simps)
  show ?case
    using lt by (subst adjacent_loop.simps(2)) (simp add: u s IH del: adjacent_loop.simps)
qed

lemma forward_before_wrap:
  "start < i \<Longrightarrow> i \<le> n
     \<Longrightarrow> adjacent_loop n wrap False start occupied (if i < n then Node i else Head) False
         = find occupied ([i..<n] @ (if wrap then [0..<start] else []))"
proof (induction "n - i" arbitrary: i)
  case 0
  then have i: "i = n" by simp
  have n: "0 < n" using 0 by simp
  have s: "step_link n False Head = Node 0"
    using n by (simp add: step_link_def)
  have sn: "start < n" using 0 by simp
  have fw: "adjacent_loop n w False start occupied (Node 0) True = find occupied [0..<start]"
    for w
    using forward_after_wrap [of 0 start n w occupied] sn by (simp del: adjacent_loop.simps)
  have "adjacent_loop n wrap False start occupied Head False
      = (if wrap then find occupied [0..<start] else None)"
    by (subst adjacent_loop.simps(1)) (simp add: s fw del: adjacent_loop.simps)
  then show ?case
    using i by (simp del: adjacent_loop.simps)
next
  case (Suc d)
  then have lt: "i < n" and ne: "i \<noteq> start" by simp_all
  have u: "[i..<n] = i # [Suc i..<n]"
    using lt by (simp add: upt_conv_Cons)
  have s: "step_link n False (Node i) = (if Suc i < n then Node (Suc i) else Head)"
    by (simp add: step_link_def)
  from Suc(1) [of "Suc i"] Suc(2,3,4) lt
  have IH: "adjacent_loop n wrap False start occupied (if Suc i < n then Node (Suc i) else Head)
        False
      = find occupied ([Suc i..<n] @ (if wrap then [0..<start] else []))"
    by (simp del: adjacent_loop.simps)
  have "adjacent_loop n wrap False start occupied (Node i) False
      = find occupied ([i..<n] @ (if wrap then [0..<start] else []))"
    using ne by (subst adjacent_loop.simps(2)) (simp only: s IH u, simp del: adjacent_loop.simps)
  then show ?case
    using lt by (simp del: adjacent_loop.simps)
qed

lemma reverse_after_wrap:
  "start \<le> i \<Longrightarrow> i < n
     \<Longrightarrow> adjacent_loop n wrap True start occupied (Node i) True
         = find occupied (rev [Suc start..<Suc i])"
proof (induction "i - start" arbitrary: i)
  case 0
  then have "i = start" by simp
  then show ?case by (subst adjacent_loop.simps(2)) simp
next
  case (Suc d)
  then have gt: "start < i" by simp
  then obtain k where k: "i = Suc k" by (cases i) auto
  have s: "step_link n True (Node i) = Node k"
    using k by (simp add: step_link_def)
  from Suc(1) [of k] Suc(2,3,4) k
  have IH: "adjacent_loop n wrap True start occupied (Node k) True
      = find occupied (rev [Suc start..<Suc k])"
    by (simp del: adjacent_loop.simps)
  have u: "rev [Suc start..<Suc i] = i # rev [Suc start..<Suc k]"
    using gt k by simp
  show ?case
    using gt by (subst adjacent_loop.simps(2)) (simp only: s IH u, simp del: adjacent_loop.simps)
qed

lemma reverse_before_wrap:
  "j \<le> start \<Longrightarrow> start < n
     \<Longrightarrow> adjacent_loop n wrap True start occupied (if j = 0 then Head else Node (j - 1)) False
         = find occupied (rev [0..<j] @ (if wrap then rev [Suc start..<n] else []))"
proof (induction j)
  case 0
  then obtain m where m: "n = Suc m" by (cases n) auto
  have s: "step_link n True Head = Node m"
    using m by (simp add: step_link_def)
  have rw: "adjacent_loop n w True start occupied (Node m) True
      = find occupied (rev [Suc start..<n])" for w
    using reverse_after_wrap [of start m n w occupied] 0 m by (simp del: adjacent_loop.simps)
  have "adjacent_loop n wrap True start occupied Head False
      = (if wrap then find occupied (rev [Suc start..<n]) else None)"
    by (subst adjacent_loop.simps(1)) (simp add: s rw del: adjacent_loop.simps)
  then show ?case
    by (simp del: adjacent_loop.simps)
next
  case (Suc k)
  then have ne: "k \<noteq> start" by simp
  have s: "step_link n True (Node k) = (if k = 0 then Head else Node (k - 1))"
    by (simp add: step_link_def)
  from Suc have IH: "adjacent_loop n wrap True start occupied
        (if k = 0 then Head else Node (k - 1)) False
      = find occupied (rev [0..<k] @ (if wrap then rev [Suc start..<n] else []))"
    by (simp del: adjacent_loop.simps)
  have "adjacent_loop n wrap True start occupied (Node k) False
      = find occupied (rev [0..<Suc k] @ (if wrap then rev [Suc start..<n] else []))"
    using ne by (subst adjacent_loop.simps(2)) (simp only: s IH, simp del: adjacent_loop.simps)
  then show ?case
    by (simp del: adjacent_loop.simps)
qed

lemma adjacent_loop_search_order:
  assumes "start < n"
  shows "adjacent_loop n wrap reverse start occupied (step_link n reverse (Node start)) False
    = find occupied (search_order n start wrap reverse)"
proof (cases reverse)
  case True
  with reverse_before_wrap [of start start n wrap occupied] assms show ?thesis
    by (simp add: step_link_def search_order_def del: adjacent_loop.simps)
next
  case False
  with forward_before_wrap [of start "Suc start" n wrap occupied] assms show ?thesis
    by (simp add: step_link_def search_order_def del: adjacent_loop.simps)
qed

lemma search_order_bound:
  "start < n \<Longrightarrow> i \<in> set (search_order n start wrap reverse) \<Longrightarrow> i < n \<and> i \<noteq> start"
  by (auto simp: search_order_def split: if_splits)

lemma get_adjacent_occupied_search_order:
  assumes "find_position anchor (workspaces_all s) = Some start"
  shows "get_adjacent_occupied s anchor wrap reverse
    = map_option ((!) (workspaces_all s))
        (find (\<lambda>i. workspace_has_views (workspaces_all s ! i) s)
           (search_order (length (workspaces_all s)) start wrap reverse))"
proof -
  let ?ws = "workspaces_all s"
  let ?n = "length ?ws"
  let ?occ = "\<lambda>i. workspace_has_views (?ws ! i) s"
  from find_position_Some [OF assms] have sn: "start < ?n" by simp
  note lp = adjacent_loop_search_order [OF sn, of wrap reverse ?occ]
  show ?thesis
  proof (cases "find ?occ (search_order ?n start wrap reverse)")
    case None
    with lp assms show ?thesis
      by (simp add: get_adjacent_occupied_def Let_def del: adjacent_loop.simps)
  next
    case (Some i)
    then have "i \<in> set (search_order ?n start wrap reverse)"
      by (auto simp: find_Some_iff)
    from search_order_bound [OF sn this] have "i < ?n" by simp
    with Some lp assms show ?thesis
      by (simp add: get_adjacent_occupied_def Let_def del: adjacent_loop.simps)
  qed
qed

text \<open>
  C5. The search is a total function: the loop is defined with a measure that decreases
  at every step, the wrap being taken at most once. For an anchor at position \<open>start\<close> of
  the registry, the search to the right and the search to the left return the first
  occupied workspace in their search order, and none when that order holds no occupied
  workspace: the order runs from the anchor's neighbour to the end of the list in the
  direction of travel and, only with \<open>wrap\<close>, on from the other end of the list up to the
  anchor, which is skipped. Hence a workspace that the search returns is a member other
  than the anchor and is occupied, and on a registry in which no workspace but the anchor
  has an assigned window that is not omnipresent both searches return none, with and
  without wrapping.
\<close>

theorem occupied_search_only_anchor:
  assumes "distinct (map ws_ptr (workspaces_all s))"
  shows "(find_position anchor (workspaces_all s) = Some start \<longrightarrow>
            get_next_occupied s anchor wrap
              = map_option ((!) (workspaces_all s))
                  (find (\<lambda>i. workspace_has_views (workspaces_all s ! i) s)
                     (search_order (length (workspaces_all s)) start wrap False))
          \<and> get_prev_occupied s anchor wrap
              = map_option ((!) (workspaces_all s))
                  (find (\<lambda>i. workspace_has_views (workspaces_all s ! i) s)
                     (search_order (length (workspaces_all s)) start wrap True)))
    \<and> (get_adjacent_occupied s anchor wrap reverse = Some w \<longrightarrow>
            w \<in> set (workspaces_all s) \<and> ws_ptr w \<noteq> anchor \<and> workspace_has_views w s)
    \<and> ((\<forall>w \<in> set (workspaces_all s). ws_ptr w \<noteq> anchor \<longrightarrow> \<not> workspace_has_views w s) \<longrightarrow>
          get_prev_occupied s anchor wrap = None \<and> get_next_occupied s anchor wrap = None)"
proof (intro conjI impI)
  assume f: "find_position anchor (workspaces_all s) = Some start"
  show "get_next_occupied s anchor wrap
      = map_option ((!) (workspaces_all s))
          (find (\<lambda>i. workspace_has_views (workspaces_all s ! i) s)
             (search_order (length (workspaces_all s)) start wrap False))"
    unfolding get_next_occupied_def by (rule get_adjacent_occupied_search_order [OF f])
  show "get_prev_occupied s anchor wrap
      = map_option ((!) (workspaces_all s))
          (find (\<lambda>i. workspace_has_views (workspaces_all s ! i) s)
             (search_order (length (workspaces_all s)) start wrap True))"
    unfolding get_prev_occupied_def by (rule get_adjacent_occupied_search_order [OF f])
next
  assume "get_adjacent_occupied s anchor wrap reverse = Some w"
  from get_adjacent_occupied_result [OF assms this]
  show "w \<in> set (workspaces_all s)" and "ws_ptr w \<noteq> anchor" and "workspace_has_views w s"
    by auto
next
  assume only: "\<forall>w \<in> set (workspaces_all s). ws_ptr w \<noteq> anchor \<longrightarrow> \<not> workspace_has_views w s"
  have none: "get_adjacent_occupied s anchor wrap r = None" for r
  proof (cases "get_adjacent_occupied s anchor wrap r")
    case None
    then show ?thesis .
  next
    case (Some v)
    from get_adjacent_occupied_result [OF assms Some] only show ?thesis by blast
  qed
  show "get_prev_occupied s anchor wrap = None"
    by (simp add: get_prev_occupied_def none)
  show "get_next_occupied s anchor wrap = None"
    by (simp add: get_next_occupied_def none)
qed

theorem occupied_search_only_anchor_witness:
  "distinct (map ws_ptr (workspaces_all (server_abc\<lparr>views := [view_on_b]\<rparr>)))
   \<and> workspace_has_views \<lparr>ws_ptr = 2, ws_name = ''B''\<rparr> (server_abc\<lparr>views := [view_on_b]\<rparr>)
   \<and> get_prev_occupied (server_abc\<lparr>views := [view_on_b]\<rparr>) 2 False = None
   \<and> get_prev_occupied (server_abc\<lparr>views := [view_on_b]\<rparr>) 2 True = None
   \<and> get_next_occupied (server_abc\<lparr>views := [view_on_b]\<rparr>) 2 False = None
   \<and> get_next_occupied (server_abc\<lparr>views := [view_on_b]\<rparr>) 2 True = None
   \<and> get_adjacent_occupied (server_abc\<lparr>views := [view_on_b]\<rparr>) 3 False False = None
   \<and> get_adjacent_occupied (server_abc\<lparr>views := [view_on_b]\<rparr>) 3 True False
       = Some \<lparr>ws_ptr = 2, ws_name = ''B''\<rparr>
   \<and> ws_ptr \<lparr>ws_ptr = 2, ws_name = ''B''\<rparr> \<noteq> 3
   \<and> find_position 1 (workspaces_all (server_abc\<lparr>views := [view_on_c, view_on_b]\<rparr>)) = Some 0
   \<and> search_order 3 0 False False = [1, 2] \<and> search_order 3 0 True False = [1, 2]
   \<and> search_order 3 0 False True = [] \<and> search_order 3 0 True True = [2, 1]
   \<and> search_order 3 1 True False = [2, 0] \<and> search_order 3 1 True True = [0, 2]
   \<and> get_next_occupied (server_abc\<lparr>views := [view_on_c, view_on_b]\<rparr>) 1 False
       = Some \<lparr>ws_ptr = 2, ws_name = ''B''\<rparr>
   \<and> get_prev_occupied (server_abc\<lparr>views := [view_on_c, view_on_b]\<rparr>) 1 False = None
   \<and> get_prev_occupied (server_abc\<lparr>views := [view_on_c, view_on_b]\<rparr>) 1 True
       = Some \<lparr>ws_ptr = 3, ws_name = ''C''\<rparr>"
proof -
  let ?s = "server_abc\<lparr>views := [view_on_b]\<rparr>"
  let ?t = "server_abc\<lparr>views := [view_on_c, view_on_b]\<rparr>"
  let ?b = "\<lparr>ws_ptr = 2, ws_name = ''B''\<rparr>"
  have d: "distinct (map ws_ptr (workspaces_all ?s))"
    and dt: "distinct (map ws_ptr (workspaces_all ?t))"
    by (simp_all add: server_abc_def)
  have h: "\<forall>w \<in> set (workspaces_all ?s). ws_ptr w \<noteq> 2 \<longrightarrow> \<not> workspace_has_views w ?s"
    by (simp add: server_abc_def view_on_b_def workspace_has_views_def)
  have o: "workspace_has_views ?b ?s"
    by (simp add: server_abc_def view_on_b_def workspace_has_views_def)
  have nowrap: "get_adjacent_occupied ?s 3 False False = None"
    by (simp add: get_adjacent_occupied_def server_abc_def step_link_def)
  have wrapped: "get_adjacent_occupied ?s 3 True False = Some ?b"
    by (simp add: get_adjacent_occupied_def server_abc_def step_link_def view_on_b_def
        workspace_has_views_def)
  have f: "find_position 1 (workspaces_all ?t) = Some 0"
    by (simp add: server_abc_def)
  have so: "search_order 3 0 False False = [1, 2]" "search_order 3 0 True False = [1, 2]"
    "search_order 3 0 False True = []" "search_order 3 0 True True = [2, 1]"
    "search_order 3 1 True False = [2, 0]" "search_order 3 1 True True = [0, 2]"
    by code_simp+
  note t1 = occupied_search_only_anchor [OF dt, of 1 0 False False ?b]
  note t2 = occupied_search_only_anchor [OF dt, of 1 0 True False ?b]
  have e1: "map_option ((!) (workspaces_all ?t))
        (find (\<lambda>i. workspace_has_views (workspaces_all ?t ! i) ?t)
           (search_order (length (workspaces_all ?t)) 0 False False)) = Some ?b"
    and e2: "map_option ((!) (workspaces_all ?t))
        (find (\<lambda>i. workspace_has_views (workspaces_all ?t ! i) ?t)
           (search_order (length (workspaces_all ?t)) 0 False True)) = None"
    and e3: "map_option ((!) (workspaces_all ?t))
        (find (\<lambda>i. workspace_has_views (workspaces_all ?t ! i) ?t)
           (search_order (length (workspaces_all ?t)) 0 True True))
        = Some \<lparr>ws_ptr = 3, ws_name = ''C''\<rparr>"
    by code_simp+
  from t1 f have a1: "get_next_occupied ?t 1 False
      = map_option ((!) (workspaces_all ?t))
        (find (\<lambda>i. workspace_has_views (workspaces_all ?t ! i) ?t)
           (search_order (length (workspaces_all ?t)) 0 False False))"
    and a2: "get_prev_occupied ?t 1 False
      = map_option ((!) (workspaces_all ?t))
        (find (\<lambda>i. workspace_has_views (workspaces_all ?t ! i) ?t)
           (search_order (length (workspaces_all ?t)) 0 False True))"
    by blast+
  from t2 f have a3: "get_prev_occupied ?t 1 True
      = map_option ((!) (workspaces_all ?t))
        (find (\<lambda>i. workspace_has_views (workspaces_all ?t ! i) ?t)
           (search_order (length (workspaces_all ?t)) 0 True True))"
    by blast
  have n1: "get_next_occupied ?t 1 False = Some ?b"
    using a1 e1 by (rule trans)
  have p1: "get_prev_occupied ?t 1 False = None"
    using a2 e2 by (rule trans)
  have p2: "get_prev_occupied ?t 1 True = Some \<lparr>ws_ptr = 3, ws_name = ''C''\<rparr>"
    using a3 e3 by (rule trans)
  show ?thesis
    using d o h nowrap wrapped f so n1 p1 p2
      occupied_search_only_anchor [OF d, of 2 0 False False ?b]
      occupied_search_only_anchor [OF d, of 2 0 True False ?b]
      occupied_search_only_anchor [OF d, of 3 0 True False ?b]
    by simp
qed


section \<open>Persisting and reloading the name list\<close>

lemma c_str_id: "NUL \<notin> set s \<Longrightarrow> c_str s = s"
  by (induction s) (auto simp: c_str_def)

lemma getlines_line:
  "LF \<notin> set n \<Longrightarrow> getlines cur (n @ LF # rest) = (cur @ n @ [LF]) # getlines [] rest"
  by (induction n arbitrary: cur) auto

lemma strip_eol_line:
  assumes "n \<noteq> []" and "last n \<noteq> LF" and "last n \<noteq> CR"
  shows "strip_eol (n @ [LF]) = n"
proof -
  from assms(1) obtain xs x where n: "n = xs @ [x]"
    by (cases n rule: rev_cases) auto
  with assms(2,3) have "x \<noteq> LF" and "x \<noteq> CR"
    by auto
  then show ?thesis by (simp add: strip_eol_def n)
qed

lemma load_lines_persist_text:
  assumes "\<forall>w \<in> set ws. ws_name w \<noteq> [] \<and> LF \<notin> set (ws_name w) \<and> NUL \<notin> set (ws_name w)
             \<and> last (ws_name w) \<noteq> CR"
  shows "load_lines (getlines [] (persist_text ws)) = map ws_name ws"
  using assms
proof (induction ws)
  case Nil
  show ?case by (simp add: persist_text_def)
next
  case (Cons w ws)
  let ?n = "ws_name w"
  from Cons.prems have n: "?n \<noteq> []" "LF \<notin> set ?n" "NUL \<notin> set ?n" "last ?n \<noteq> CR"
    by auto
  from n(1,2) have l: "last ?n \<noteq> LF"
    by (metis last_in_set)
  have t: "persist_text (w # ws) = ?n @ LF # persist_text ws"
    by (simp add: persist_text_def c_str_id [OF n(3)])
  have IH: "load_lines (getlines [] (persist_text ws)) = map ws_name ws"
    using Cons by simp
  show ?case
    using getlines_line [OF n(2), of "[]" "persist_text ws"]
      strip_eol_line [OF n(1) l n(4)] c_str_id [OF n(3)] n(1) IH
    by (simp add: t)
qed

text \<open>
  C7, as the code has it. The loader cuts every trailing carriage return of a line as
  well as the line feed, so a name that ends in a carriage return does not survive. For a
  registry whose names are non-empty C strings without a line feed and without a final
  carriage return, a successful write of the state file followed by a load yields the
  ordered list of names.
\<close>

theorem persist_reload_names:
  assumes "fs_writable s" and "workspaces_all s \<noteq> []"
    and "\<forall>w \<in> set (workspaces_all s). ws_name w \<noteq> [] \<and> LF \<notin> set (ws_name w)
           \<and> NUL \<notin> set (ws_name w) \<and> last (ws_name w) \<noteq> CR"
  shows "workspace_config_list_load_persisted (workspace_state_persist s)
           = Some (map ws_name (workspaces_all s))"
  using assms(1,2) load_lines_persist_text [OF assms(3)]
  by (simp add: workspace_config_list_load_persisted_def workspace_state_persist_def)

theorem persist_reload_names_witness:
  "fs_writable server_abc \<and> workspaces_all server_abc \<noteq> []
   \<and> map ws_name (workspaces_all server_abc) = [''A'', ''B'', ''C'']
   \<and> state_file (workspace_state_persist server_abc) = Some (''A'' @ [LF] @ ''B'' @ [LF] @ ''C'' @ [LF])
   \<and> workspace_config_list_load_persisted (workspace_state_persist server_abc)
       = Some [''A'', ''B'', ''C'']"
proof -
  have a: "fs_writable server_abc" and b: "workspaces_all server_abc \<noteq> []"
    by (simp_all add: server_abc_def)
  have c: "\<forall>w \<in> set (workspaces_all server_abc). ws_name w \<noteq> [] \<and> LF \<notin> set (ws_name w)
           \<and> NUL \<notin> set (ws_name w) \<and> last (ws_name w) \<noteq> CR"
    by (simp add: server_abc_def LF_def NUL_def CR_def)
  have f: "state_file (workspace_state_persist server_abc)
      = Some (''A'' @ [LF] @ ''B'' @ [LF] @ ''C'' @ [LF])"
    by (simp add: server_abc_def workspace_state_persist_def persist_text_def c_str_def NUL_def)
  show ?thesis
    using a b f persist_reload_names [OF a b c] by (simp add: server_abc_def)
qed

text \<open>
  The claim as stated fails: the name \<open>a\<close> followed by a carriage return is not empty and
  holds no line feed, yet the reloaded list holds the name \<open>a\<close>.
\<close>

theorem persist_reload_counterexample:
  "map ws_name (workspaces_all server_cr) = [CHR ''a'', CR] # []
   \<and> [CHR ''a'', CR] \<noteq> [] \<and> LF \<notin> set [CHR ''a'', CR]
   \<and> state_file (workspace_state_persist server_cr) = Some [CHR ''a'', CR, LF]
   \<and> workspace_config_list_load_persisted (workspace_state_persist server_cr) = Some [''a'']
   \<and> workspace_config_list_load_persisted (workspace_state_persist server_cr)
       \<noteq> Some (map ws_name (workspaces_all server_cr))"
  by (simp add: server_cr_def server0_def workspace_state_persist_def persist_text_def
      workspace_config_list_load_persisted_def strip_eol_def c_str_def LF_def CR_def NUL_def)


section \<open>Blank lines\<close>

lemma string_strip_blank:
  assumes "\<forall>c \<in> set line. isspace c"
  shows "string_strip line = []"
proof -
  from assms have a: "dropWhile isspace (rev line) = []"
    by (simp add: dropWhile_eq_Nil_conv)
  show ?thesis unfolding string_strip_def a by simp
qed

text \<open>
  C10. A line that is empty or holds white space only is dropped by \<open>handle_command\<close>: the
  connection comes back as it was, so nothing was sent (neither \<open>OK\<close> nor \<open>ERROR\<close>), the
  compositor state is the same and the connection is still open.
\<close>

theorem blank_line_is_ignored:
  assumes "\<forall>c \<in> set line. isspace c"
  shows "handle_command api client line = client
    \<and> sent (handle_command api client line) = sent client
    \<and> client_server (handle_command api client line) = client_server client
    \<and> fd_open (handle_command api client line) = fd_open client"
  using string_strip_blank [OF assms]
  by (simp add: handle_command_def dispatch_def)

theorem blank_line_is_ignored_witness:
  "isspace (CHR '' '') \<and> isspace (CHR 0x09) \<and> isspace CR
   \<and> handle_command api0 client0 [CHR '' '', CHR 0x09, CR] = client0
   \<and> handle_command api0 client0 [] = client0"
proof -
  have h: "\<forall>c \<in> set [CHR '' '', CHR 0x09, CR]. isspace c"
    by (simp add: isspace_def CR_def)
  have e: "\<forall>c \<in> set ([] :: string). isspace c"
    by simp
  show ?thesis
    using h blank_line_is_ignored [OF h, of api0 client0]
      blank_line_is_ignored [OF e, of api0 client0]
    by simp
qed


section \<open>Adding a workspace over IPC\<close>

lemma digit_val_digit:
  assumes "k < 10"
  shows "digit_val (''0123456789'' ! k) = int k \<and> isdigit (''0123456789'' ! k)"
proof -
  from assms have "k = 0 \<or> k = 1 \<or> k = 2 \<or> k = 3 \<or> k = 4 \<or> k = 5 \<or> k = 6 \<or> k = 7
      \<or> k = 8 \<or> k = 9"
    by arith
  then show ?thesis
    by (elim disjE) (simp_all add: digit_val_def isdigit_def)
qed

lemma fmt_zu_decimal:
  "foldl (\<lambda>a d. a * 10 + digit_val d) 0 (fmt_zu n) = int n \<and> list_all isdigit (fmt_zu n)"
proof (induction n rule: fmt_zu.induct)
  case (1 n)
  show ?case
  proof (cases "n < 10")
    case True
    with digit_val_digit [OF True] show ?thesis
      by (subst (1 2) fmt_zu.simps) simp
  next
    case False
    have m: "n mod 10 < 10" by simp
    have "int (n div 10) * 10 + int (n mod 10) = int n"
      by (simp add: zdiv_int zmod_int)
    with False "1.IH" digit_val_digit [OF m] show ?thesis
      by (subst (1 2) fmt_zu.simps) simp
  qed
qed

lemma fmt_zu_nonempty: "fmt_zu n \<noteq> []"
  by (subst fmt_zu.simps) simp

lemma fmt_d_nonempty: "fmt_d i \<noteq> []"
  by (simp add: fmt_d_def fmt_zu_nonempty)

lemma workspaces_add_named_effect:
  assumes "name \<noteq> []"
  shows "snd (workspaces_add_named s name)"
    and "workspaces_all (fst (workspaces_add_named s name))
           = workspaces_all s @ [\<lparr>ws_ptr = next_ptr s, ws_name = name\<rparr>]"
    and "state_file (fst (workspaces_add_named s name))
           = (if fs_writable s
              then Some (persist_text (workspaces_all (fst (workspaces_add_named s name))))
              else state_file s)"
    and "broadcast (fst (workspaces_add_named s name))
           = broadcast s @ [''EVENT workspace-list-changed current=''
               @ fmt_d (workspace_index (fst (workspaces_add_named s name))
                          (Some (workspaces_current (fst (workspaces_add_named s name)))))
               @ '' count='' @ fmt_zu (length (workspaces_all (fst (workspaces_add_named s name))))
               @ [LF]]"
  using assms
  by (simp_all add: workspaces_add_named_def add_workspace_def Let_def log_calls_def
      workspace_state_persist_def ipc_notify_workspace_list_changed_def
      ipc_broadcast_event_def workspace_index_def)

lemma handle_workspace_add_cases:
  "handle_workspace_add client line
     = ipc_send_str client (''ERROR invalid percent-encoding in name'' @ [LF])
   \<or> handle_workspace_add client line
     = ipc_send_str client (''ERROR failed to add workspace'' @ [LF])
   \<or> (\<exists>name. name \<noteq> [] \<and> handle_workspace_add client line
         = ipc_send_str (client\<lparr>client_server :=
              fst (workspaces_add_named (client_server client) name)\<rparr>) (''OK'' @ [LF]))"
proof -
  let ?s = "client_server client"
  let ?name = "workspace_add_args (arg_tokens line) None"
  let ?decoded = "if ?name = None \<or> ?name = Some []
             then Some (fmt_d (int (length (workspaces_all ?s)) + 1))
             else map_option c_str (ipc_pct_decode_inplace (the ?name))"
  show ?thesis
  proof (cases ?decoded)
    case None
    then show ?thesis by (simp add: handle_workspace_add_def Let_def)
  next
    case (Some n)
    show ?thesis
    proof (cases "n = []")
      case True
      with Some show ?thesis
        by (simp add: handle_workspace_add_def Let_def workspaces_add_named_def)
    next
      case False
      with Some have "handle_workspace_add client line
         = ipc_send_str (client\<lparr>client_server :=
              fst (workspaces_add_named ?s n)\<rparr>) (''OK'' @ [LF])"
        by (simp add: handle_workspace_add_def Let_def workspaces_add_named_def)
      with False show ?thesis by blast
    qed
  qed
qed


text \<open>
  C8. A line handled as workspace-add whose name argument is absent or empty is answered
  with \<open>OK\<close> and appends one workspace, named with the decimal digits of the previous
  size plus one (read back as a decimal numeral, the name gives that number). Every workspace-add that is answered with \<open>OK\<close>, whatever its name, has
  appended one workspace, written the name list to the state file (when the write
  succeeds) and broadcast one workspace-list-changed event. Generated names are not
  checked against the names in use: adding, removing the first workspace and adding again
  leaves two workspaces named \<open>2\<close>.
\<close>

theorem workspace_add_generated_name:
  assumes "dispatch (string_strip line) = Workspace_add"
  shows "(workspace_add_args (arg_tokens (string_strip line)) None = None
          \<or> workspace_add_args (arg_tokens (string_strip line)) None = Some [] \<longrightarrow>
            sent (handle_command api client line) = sent client @ ''OK'' @ [LF]
          \<and> workspaces_all (client_server (handle_command api client line))
              = workspaces_all (client_server client)
                @ [\<lparr>ws_ptr = next_ptr (client_server client),
                    ws_name = fmt_d (int (length (workspaces_all (client_server client))) + 1)\<rparr>]
          \<and> foldl (\<lambda>a d. a * 10 + digit_val d) 0
                (fmt_d (int (length (workspaces_all (client_server client))) + 1))
              = int (length (workspaces_all (client_server client))) + 1)
    \<and> (sent (handle_command api client line) = sent client @ ''OK'' @ [LF] \<longrightarrow>
          length (workspaces_all (client_server (handle_command api client line)))
            = Suc (length (workspaces_all (client_server client)))
        \<and> state_file (client_server (handle_command api client line))
            = (if fs_writable (client_server client)
               then Some (persist_text
                      (workspaces_all (client_server (handle_command api client line))))
               else state_file (client_server client))
        \<and> broadcast (client_server (handle_command api client line))
            = broadcast (client_server client)
              @ [''EVENT workspace-list-changed current=''
                 @ fmt_d (workspace_index (client_server (handle_command api client line))
                     (Some (workspaces_current (client_server (handle_command api client line)))))
                 @ '' count=''
                 @ fmt_zu (length (workspaces_all (client_server (handle_command api client line))))
                 @ [LF]])
    \<and> map ws_name (workspaces_all (client_server
          (handle_command api0
             (handle_command api0 (handle_command api0 client0 ''workspace-add'')
                ''workspace-remove index=1'')
             ''workspace-add name='')))
        = [''2'', ''2'']"
proof (intro conjI impI)
  let ?s = "client_server client"
  let ?line = "string_strip line"
  let ?gen = "fmt_d (int (length (workspaces_all ?s)) + 1)"
  have hc: "handle_command api client line = handle_workspace_add client ?line"
    using assms by (simp add: handle_command_def)
  {
    assume n: "workspace_add_args (arg_tokens ?line) None = None
          \<or> workspace_add_args (arg_tokens ?line) None = Some []"
    then have r: "handle_command api client line
        = ipc_send_str (client\<lparr>client_server := fst (workspaces_add_named ?s ?gen)\<rparr>)
            (''OK'' @ [LF])"
      unfolding hc
      by (auto simp: handle_workspace_add_def Let_def workspaces_add_named_def fmt_d_nonempty)
    show "sent (handle_command api client line) = sent client @ ''OK'' @ [LF]"
      by (simp add: r ipc_send_str_def)
    show "workspaces_all (client_server (handle_command api client line))
              = workspaces_all ?s @ [\<lparr>ws_ptr = next_ptr ?s, ws_name = ?gen\<rparr>]"
      using workspaces_add_named_effect(2) [of ?gen ?s, OF fmt_d_nonempty]
      by (simp add: r ipc_send_str_def)
    show "foldl (\<lambda>a d. a * 10 + digit_val d) 0 ?gen = int (length (workspaces_all ?s)) + 1"
      using fmt_zu_decimal [of "Suc (length (workspaces_all ?s))"]
      by (simp add: fmt_d_def nat_add_distrib)
  }
  {
    assume ok: "sent (handle_command api client line) = sent client @ ''OK'' @ [LF]"
    from handle_workspace_add_cases [of client ?line] ok
    obtain name where ne: "name \<noteq> []"
      and r: "handle_command api client line
        = ipc_send_str (client\<lparr>client_server := fst (workspaces_add_named ?s name)\<rparr>)
            (''OK'' @ [LF])"
      unfolding hc by (auto simp: ipc_send_str_def)
    have cs: "client_server (handle_command api client line) = fst (workspaces_add_named ?s name)"
      by (simp add: r ipc_send_str_def)
    show "length (workspaces_all (client_server (handle_command api client line)))
            = Suc (length (workspaces_all ?s))"
      unfolding cs by (simp add: workspaces_add_named_effect(2) [OF ne])
    show "state_file (client_server (handle_command api client line))
            = (if fs_writable ?s
               then Some (persist_text
                      (workspaces_all (client_server (handle_command api client line))))
               else state_file ?s)"
      unfolding cs by (rule workspaces_add_named_effect(3) [OF ne])
    show "broadcast (client_server (handle_command api client line))
            = broadcast ?s
              @ [''EVENT workspace-list-changed current=''
                 @ fmt_d (workspace_index (client_server (handle_command api client line))
                     (Some (workspaces_current (client_server (handle_command api client line)))))
                 @ '' count=''
                 @ fmt_zu (length (workspaces_all (client_server (handle_command api client line))))
                 @ [LF]]"
      unfolding cs by (rule workspaces_add_named_effect(4) [OF ne])
  }
  show "map ws_name (workspaces_all (client_server
          (handle_command api0
             (handle_command api0 (handle_command api0 client0 ''workspace-add'')
                ''workspace-remove index=1'')
             ''workspace-add name='')))
        = [''2'', ''2'']"
    by code_simp
qed

theorem workspace_add_generated_name_witness:
  "dispatch (string_strip ''workspace-add'') = Workspace_add
   \<and> workspace_add_args (arg_tokens (string_strip ''workspace-add'')) None = None
   \<and> map ws_name (workspaces_all (client_server client0)) = [''1'']
   \<and> sent (handle_command api0 client0 ''workspace-add'') = ''OK'' @ [LF]
   \<and> map ws_name (workspaces_all (client_server (handle_command api0 client0 ''workspace-add'')))
       = [''1'', ''2'']
   \<and> state_file (client_server (handle_command api0 client0 ''workspace-add''))
       = Some (''1'' @ [LF] @ ''2'' @ [LF])
   \<and> broadcast (client_server (handle_command api0 client0 ''workspace-add''))
       = [''EVENT workspace-list-changed current=1 count=2'' @ [LF]]"
proof -
  have d: "dispatch (string_strip ''workspace-add'') = Workspace_add"
    by code_simp
  have a: "workspace_add_args (arg_tokens (string_strip ''workspace-add'')) None = None"
    by code_simp
  have c: "client_server client0 = workspaces_init server0" "sent client0 = []"
    by (simp_all add: client0_def)
  have i: "workspaces_all (workspaces_init server0) = [\<lparr>ws_ptr = 1, ws_name = ''1''\<rparr>]"
    "next_ptr (workspaces_init server0) = 2" "fs_writable (workspaces_init server0)"
    "broadcast (workspaces_init server0) = []" "workspaces_current (workspaces_init server0) = 1"
    by (simp_all add: workspaces_init_def server0_def add_workspace_def Let_def log_calls_def
        workspace_state_persist_def)
  have f: "fmt_d 2 = ''2''" "fmt_zu (Suc (Suc 0)) = ''2''" "fmt_d 1 = ''1''"
    by (simp_all add: fmt_d_def fmt_zu.simps)
  have k: "workspaces_current (client_server (handle_command api0 client0 ''workspace-add'')) = 1"
    by code_simp
  note t = workspace_add_generated_name [OF d, of api0 client0]
  from t a have s: "sent (handle_command api0 client0 ''workspace-add'') = ''OK'' @ [LF]"
    and w: "workspaces_all (client_server (handle_command api0 client0 ''workspace-add''))
      = [\<lparr>ws_ptr = 1, ws_name = ''1''\<rparr>, \<lparr>ws_ptr = 2, ws_name = ''2''\<rparr>]"
    by (simp_all add: c i f)
  from t s have "state_file (client_server (handle_command api0 client0 ''workspace-add''))
       = Some (''1'' @ [LF] @ ''2'' @ [LF])"
    and "broadcast (client_server (handle_command api0 client0 ''workspace-add''))
       = [''EVENT workspace-list-changed current=1 count=2'' @ [LF]]"
    by (simp_all add: c i f k w persist_text_def c_str_def NUL_def workspace_index_def)
  with d a s w show ?thesis
    by (simp add: c i)
qed

section \<open>Command selection\<close>

text \<open>
  One half of the selection rule holds: a line whose first token is one of the three
  workspace commands, in any letter case, is handled as that command.
\<close>

lemma string_strip_head:
  "string_strip line = c # rest \<Longrightarrow> \<not> isspace c"
  using hd_dropWhile [of isspace "rev (dropWhile isspace (rev line))"]
  by (simp add: string_strip_def)

lemma first_token_prefix:
  assumes "strtok_r (c # rest) = Some (tok, save)" and "\<not> isspace c"
  shows "take (length tok) (c # rest) = tok"
proof -
  from assms(2) have nd: "\<not> is_delim c"
    by (auto simp: isspace_def is_delim_def)
  then have "dropWhile is_delim (c # rest) = c # rest"
    by simp
  with assms(1) have tok: "tok = takeWhile (\<lambda>c. \<not> is_delim c) (c # rest)"
    by (simp add: strtok_r_def Let_def)
  have "c # rest = tok @ dropWhile (\<lambda>c. \<not> is_delim c) (c # rest)"
    unfolding tok by (rule takeWhile_dropWhile_id [symmetric])
  then have "take (length tok) (c # rest)
      = take (length tok) (tok @ dropWhile (\<lambda>c. \<not> is_delim c) (c # rest))"
    by simp
  then show ?thesis by simp
qed

lemma dispatch_workspace_prefix:
  assumes "l \<noteq> []"
  shows "take (length ''workspace-add'') (map tolower l) = ''workspace-add'' \<Longrightarrow> dispatch l = Workspace_add"
    and "take (length ''workspace-rename'') (map tolower l) = ''workspace-rename'' \<Longrightarrow> dispatch l = Workspace_rename"
    and "take (length ''workspace-remove'') (map tolower l) = ''workspace-remove'' \<Longrightarrow> dispatch l = Workspace_remove"
proof -
  {
    assume t: "take (length ''workspace-add'') (map tolower l) = ''workspace-add''"
    have ne: "map tolower l \<noteq> ''ping''" "map tolower l \<noteq> ''subscribe-events''"
      "map tolower l \<noteq> ''list-views''" "map tolower l \<noteq> ''list-views-json''"
      "map tolower l \<noteq> ''list-workspaces''" "map tolower l \<noteq> ''list-workspaces-json''"
      using t by auto
    have "strncasecmp_eq l ''workspace-add'' (length ''workspace-add'')"
      using t by (simp add: strncasecmp_eq_def take_map tolower_def)
    with assms ne show "dispatch l = Workspace_add"
      by (simp add: dispatch_def strcasecmp_eq_def tolower_def)
  }
  {
    assume t: "take (length ''workspace-rename'') (map tolower l) = ''workspace-rename''"
    have ne: "map tolower l \<noteq> ''ping''" "map tolower l \<noteq> ''subscribe-events''"
      "map tolower l \<noteq> ''list-views''" "map tolower l \<noteq> ''list-views-json''"
      "map tolower l \<noteq> ''list-workspaces''" "map tolower l \<noteq> ''list-workspaces-json''"
      using t by auto
    have a: "\<not> strncasecmp_eq l ''workspace-add'' (length ''workspace-add'')"
    proof
      assume "strncasecmp_eq l ''workspace-add'' (length ''workspace-add'')"
      then have "take (length ''workspace-add'') (map tolower l) = ''workspace-add''"
        by (simp add: strncasecmp_eq_def take_map tolower_def)
      then have "take (length ''workspace-add'') (take (length ''workspace-rename'') (map tolower l)) = ''workspace-add''"
        by (simp add: min_def)
      with t show False by simp
    qed
    have "strncasecmp_eq l ''workspace-rename'' (length ''workspace-rename'')"
      using t by (simp add: strncasecmp_eq_def take_map tolower_def)
    with assms ne a show "dispatch l = Workspace_rename"
      by (simp add: dispatch_def strcasecmp_eq_def tolower_def)
  }
  {
    assume t: "take (length ''workspace-remove'') (map tolower l) = ''workspace-remove''"
    have ne: "map tolower l \<noteq> ''ping''" "map tolower l \<noteq> ''subscribe-events''"
      "map tolower l \<noteq> ''list-views''" "map tolower l \<noteq> ''list-views-json''"
      "map tolower l \<noteq> ''list-workspaces''" "map tolower l \<noteq> ''list-workspaces-json''"
      using t by auto
    have a: "\<not> strncasecmp_eq l ''workspace-add'' (length ''workspace-add'')"
    proof
      assume "strncasecmp_eq l ''workspace-add'' (length ''workspace-add'')"
      then have "take (length ''workspace-add'') (map tolower l) = ''workspace-add''"
        by (simp add: strncasecmp_eq_def take_map tolower_def)
      then have "take (length ''workspace-add'') (take (length ''workspace-rename'') (map tolower l)) = ''workspace-add''"
        by (simp add: min_def)
      with t show False by simp
    qed
    have b: "\<not> strncasecmp_eq l ''workspace-rename'' (length ''workspace-rename'')"
      using t by (simp add: strncasecmp_eq_def take_map tolower_def)
    have "strncasecmp_eq l ''workspace-remove'' (length ''workspace-remove'')"
      using t by (simp add: strncasecmp_eq_def take_map tolower_def)
    with assms ne a b show "dispatch l = Workspace_remove"
      by (simp add: dispatch_def strcasecmp_eq_def tolower_def)
  }
qed

lemma first_token_selects_workspace_command:
  assumes "strtok_r (string_strip line) = Some (tok, save)"
  shows "strcasecmp_eq tok ''workspace-add'' \<Longrightarrow> dispatch (string_strip line) = Workspace_add"
    and "strcasecmp_eq tok ''workspace-rename'' \<Longrightarrow> dispatch (string_strip line) = Workspace_rename"
    and "strcasecmp_eq tok ''workspace-remove'' \<Longrightarrow> dispatch (string_strip line) = Workspace_remove"
proof -
  from assms obtain c rest where l: "string_strip line = c # rest"
    by (cases "string_strip line") (auto simp: strtok_r_def)
  then have ne: "string_strip line \<noteq> []"
    by simp
  from first_token_prefix [OF assms [unfolded l] string_strip_head [OF l]]
  have "take (length tok) (string_strip line) = tok"
    by (simp only: l)
  then have p: "take (length tok) (map tolower (string_strip line)) = map tolower tok"
    by (simp only: take_map)
  {
    assume "strcasecmp_eq tok ''workspace-add''"
    then have m: "map tolower tok = ''workspace-add''"
      by (simp add: strcasecmp_eq_def tolower_def)
    then have "length tok = length ''workspace-add''"
      using length_map [of tolower tok] by simp
    with p m show "dispatch (string_strip line) = Workspace_add"
      by (intro dispatch_workspace_prefix(1) [OF ne]) simp
  }
  {
    assume "strcasecmp_eq tok ''workspace-rename''"
    then have m: "map tolower tok = ''workspace-rename''"
      by (simp add: strcasecmp_eq_def tolower_def)
    then have "length tok = length ''workspace-rename''"
      using length_map [of tolower tok] by simp
    with p m show "dispatch (string_strip line) = Workspace_rename"
      by (intro dispatch_workspace_prefix(2) [OF ne]) simp
  }
  {
    assume "strcasecmp_eq tok ''workspace-remove''"
    then have m: "map tolower tok = ''workspace-remove''"
      by (simp add: strcasecmp_eq_def tolower_def)
    then have "length tok = length ''workspace-remove''"
      using length_map [of tolower tok] by simp
    with p m show "dispatch (string_strip line) = Workspace_remove"
      by (intro dispatch_workspace_prefix(3) [OF ne]) simp
  }
qed

text \<open>
  C6, at the input \<open>workspace-addx\<close>. The first token of this line is \<open>workspace-addx\<close>,
  which is not the command name \<open>workspace-add\<close>; the line is handled as workspace-add all
  the same, since the comparison is \<open>strncasecmp\<close> on the first 13 bytes of the line: a
  workspace is added and the reply is \<open>OK\<close>. Treated as an action name, the line would have
  been answered with \<open>ERROR unknown action\<close>.
\<close>

theorem prefix_is_taken_for_workspace_add:
  "strtok_r ''workspace-addx'' = Some (''workspace-addx'', [])
   \<and> \<not> strcasecmp_eq ''workspace-addx'' ''workspace-add''
   \<and> dispatch (string_strip ''workspace-addx'') = Workspace_add
   \<and> sent (handle_command api0 client0 ''workspace-addx'') = ''OK'' @ [LF]
   \<and> map ws_name (workspaces_all (client_server client0)) = [''1'']
   \<and> map ws_name (workspaces_all (client_server (handle_command api0 client0 ''workspace-addx'')))
       = [''1'', ''2'']
   \<and> handle_action api0 client0 ''workspace-addx''
       = ipc_send_str client0 (''ERROR unknown action'' @ [LF])"
  by code_simp



section \<open>Connection framing\<close>

lemma split_line_None: "LF \<notin> set s \<Longrightarrow> split_line s = None"
  by (induction s) auto


lemma split_lf_nonempty: "split_lf s \<noteq> []"
  by (induction s) (auto split: list.splits)





lemma lines_rejoin:
  "concat (map (\<lambda>l. l @ [LF]) (complete_lines s)) @ partial_line s = s"
  by (induction s)
    (auto simp: complete_lines_def partial_line_def split_lf_nonempty split: list.splits)








section \<open>Invalid escapes in a name argument\<close>

lemma of_char_int_le:
  "a \<le> b \<Longrightarrow> (of_char a :: int) \<le> of_char b"
proof -
  assume "a \<le> b"
  then have "(of_char a :: nat) \<le> of_char b"
    by (simp add: less_eq_char_def)
  then have "int (of_char a) \<le> int (of_char b)"
    by simp
  then show ?thesis by (simp add: of_nat_of_char)
qed

lemma ipc_hex_nibble_negative: "ipc_hex_nibble c < 0 \<longleftrightarrow> \<not> isxdigit c"
  using of_char_int_le [of "CHR ''0''" c] of_char_int_le [of "CHR ''a''" c]
    of_char_int_le [of "CHR ''A''" c]
  by (auto simp: ipc_hex_nibble_def isxdigit_def)

lemma isxdigit_not_NUL: "isxdigit c \<Longrightarrow> c \<noteq> NUL"
  by (auto simp: isxdigit_def NUL_def)

lemma decode_fails_iff_bad_escape:
  "NUL \<notin> set s \<Longrightarrow> ipc_pct_decode_inplace s = None \<longleftrightarrow> has_bad_escape s"
proof (induction s rule: has_bad_escape.induct)
  case 1
  show ?case by simp
next
  case (2 c s)
  show ?case
  proof (cases "c = CHR ''%''")
    case False
    with 2 show ?thesis by auto
  next
    case True
    show ?thesis
    proof (cases s)
      case Nil
      with True show ?thesis by (simp add: NUL_def)
    next
      case (Cons h t)
      show ?thesis
      proof (cases t)
        case Nil
        with True Cons show ?thesis by (simp add: NUL_def)
      next
        case (Cons l rest)
        with True \<open>s = h # t\<close> "2.prems" "2.IH"(2) [of h t l rest]
        show ?thesis
          by (auto simp: Let_def ipc_hex_nibble_negative)
      qed
    qed
  qed
qed



lemma set_string_strip: "set (string_strip l) \<subseteq> set l"
proof -
  have "set (string_strip l) \<subseteq> set (rev (dropWhile isspace (rev l)))"
    unfolding string_strip_def by (auto dest: set_dropWhileD)
  also have "\<dots> \<subseteq> set l"
    by (auto dest: set_dropWhileD)
  finally show ?thesis .
qed

lemma strtok_r_sets:
  assumes "strtok_r s = Some (tok, save)"
  shows "set tok \<subseteq> set s" and "set save \<subseteq> set s"
proof -
  let ?t = "dropWhile is_delim s"
  from assms have tok: "tok = takeWhile (\<lambda>c. \<not> is_delim c) ?t"
    and save: "save = drop 1 (dropWhile (\<lambda>c. \<not> is_delim c) ?t)"
    by (auto simp: strtok_r_def Let_def split: if_splits)
  show "set tok \<subseteq> set s"
    unfolding tok by (auto dest: set_takeWhileD set_dropWhileD)
  show "set save \<subseteq> set s"
    unfolding save by (auto dest: in_set_dropD set_dropWhileD)
qed

lemma strtok_all_sets: "tok \<in> set (strtok_all s) \<Longrightarrow> set tok \<subseteq> set s"
proof (induction s rule: strtok_all.induct)
  case (1 save)
  show ?case
  proof (cases "strtok_r save")
    case None
    with "1.prems" show ?thesis by (subst (asm) strtok_all.simps) simp
  next
    case (Some p)
    obtain t save' where p: "p = (t, save')" by (cases p)
    from "1.prems" Some p have "tok = t \<or> tok \<in> set (strtok_all save')"
      by (subst (asm) strtok_all.simps) simp
    then show ?thesis
    proof
      assume "tok = t"
      with strtok_r_sets(1) [of save t save'] Some p show ?thesis by simp
    next
      assume "tok \<in> set (strtok_all save')"
      from "1.IH" [OF Some p [symmetric] this] strtok_r_sets(2) [of save t save'] Some p
      show ?thesis by auto
    qed
  qed
qed

lemma arg_tokens_sets: "tok \<in> set (arg_tokens l) \<Longrightarrow> set tok \<subseteq> set l"
proof -
  assume a: "tok \<in> set (arg_tokens l)"
  show ?thesis
  proof (cases "strtok_r l")
    case None
    with a show ?thesis by (simp add: arg_tokens_def)
  next
    case (Some p)
    obtain cmd save where p: "p = (cmd, save)" by (cases p)
    from a Some p have t: "tok \<in> set (strtok_all save)"
      by (simp add: arg_tokens_def)
    from strtok_all_sets [OF t] strtok_r_sets(2) [of l cmd save] Some p show ?thesis
      by auto
  qed
qed

lemma split_eq_sets: "split_eq tok = Some (k, v) \<Longrightarrow> set v \<subseteq> set tok"
  by (auto simp: split_eq_def split: if_splits dest: in_set_dropD set_dropWhileD)

lemma workspace_add_args_NUL:
  assumes "\<forall>tok \<in> set toks. NUL \<notin> set tok" and "\<forall>m. acc = Some m \<longrightarrow> NUL \<notin> set m"
    and "workspace_add_args toks acc = Some n"
  shows "NUL \<notin> set n"
  using assms
proof (induction toks arbitrary: acc)
  case Nil
  then show ?case by simp
next
  case (Cons tok toks)
  have toks: "\<forall>t \<in> set toks. NUL \<notin> set t" and tok: "NUL \<notin> set tok"
    using Cons.prems(1) by simp_all
  show ?case
  proof (cases "split_eq tok")
    case None
    with Cons.prems(3) have "workspace_add_args toks acc = Some n" by simp
    from Cons.IH [OF toks Cons.prems(2) this] show ?thesis .
  next
    case (Some kv)
    obtain k v where kv: "kv = (k, v)" by (cases kv)
    let ?acc = "if strcasecmp_eq k ''name'' then Some v else acc"
    have v: "NUL \<notin> set v"
      using split_eq_sets [of tok k v] Some kv tok by blast
    have a: "\<forall>m. ?acc = Some m \<longrightarrow> NUL \<notin> set m"
      using v Cons.prems(2) by simp
    from Cons.prems(3) Some kv have "workspace_add_args toks ?acc = Some n" by simp
    from Cons.IH [OF toks a this] show ?thesis .
  qed
qed

lemma workspace_rename_args_NUL:
  assumes "\<forall>tok \<in> set toks. NUL \<notin> set tok" and "\<forall>m. nm = Some m \<longrightarrow> NUL \<notin> set m"
    and "fst (workspace_rename_args toks (nm, idx)) = Some n"
  shows "NUL \<notin> set n"
  using assms
proof (induction toks arbitrary: nm idx)
  case Nil
  then show ?case by simp
next
  case (Cons tok toks)
  have toks: "\<forall>t \<in> set toks. NUL \<notin> set t" and tok: "NUL \<notin> set tok"
    using Cons.prems(1) by simp_all
  show ?case
  proof (cases "split_eq tok")
    case None
    with Cons.prems(3) have "fst (workspace_rename_args toks (nm, idx)) = Some n" by simp
    from Cons.IH [OF toks Cons.prems(2) this] show ?thesis .
  next
    case (Some kv)
    obtain k v where kv: "kv = (k, v)" by (cases kv)
    let ?nm = "if strcasecmp_eq k ''name'' then Some v else nm"
    let ?idx = "if strcasecmp_eq k ''name'' then idx
                else if strcasecmp_eq k ''index'' then atoi v else idx"
    have v: "NUL \<notin> set v"
      using split_eq_sets [of tok k v] Some kv tok by blast
    have a: "\<forall>m. ?nm = Some m \<longrightarrow> NUL \<notin> set m"
      using v Cons.prems(2) by simp
    from Cons.prems(3) Some kv have "fst (workspace_rename_args toks (?nm, ?idx)) = Some n"
      by (simp split: if_splits)
    from Cons.IH [OF toks a this] show ?thesis .
  qed
qed

lemma arg_tokens_NUL:
  assumes "NUL \<notin> set line"
  shows "\<forall>tok \<in> set (arg_tokens (string_strip line)). NUL \<notin> set tok"
proof
  fix tok
  assume "tok \<in> set (arg_tokens (string_strip line))"
  from arg_tokens_sets [OF this] set_string_strip [of line] assms
  show "NUL \<notin> set tok" by blast
qed


text \<open>
  C4. Take a line (a C string) that is handled as workspace-add or workspace-rename and
  whose name argument, as the command's own token loop reads it, holds a truncated or
  invalid escape. The reply is then an \<open>ERROR\<close> line and nothing else happens: the
  connection's view of the compositor is the state before the command, so the registry,
  the state file and the list of broadcast events are as they were.
\<close>

theorem bad_escape_has_no_effect:
  assumes "NUL \<notin> set line"
    and "dispatch (string_strip line) = Workspace_add
           \<and> workspace_add_args (arg_tokens (string_strip line)) None = Some n
         \<or> dispatch (string_strip line) = Workspace_rename
           \<and> fst (workspace_rename_args (arg_tokens (string_strip line)) (None, 0)) = Some n"
    and "has_bad_escape n"
  shows "(handle_command api client line
            = client\<lparr>sent := sent client @ ''ERROR invalid percent-encoding in name'' @ [LF]\<rparr>
          \<or> handle_command api client line
            = client\<lparr>sent := sent client
                @ ''ERROR usage: workspace-rename index=N name=...'' @ [LF]\<rparr>)
    \<and> client_server (handle_command api client line) = client_server client
    \<and> workspaces_all (client_server (handle_command api client line))
        = workspaces_all (client_server client)
    \<and> state_file (client_server (handle_command api client line))
        = state_file (client_server client)
    \<and> broadcast (client_server (handle_command api client line))
        = broadcast (client_server client)"
proof -
  let ?line = "string_strip line"
  let ?inv = "client\<lparr>sent := sent client @ ''ERROR invalid percent-encoding in name'' @ [LF]\<rparr>"
  let ?usage = "client\<lparr>sent := sent client
                @ ''ERROR usage: workspace-rename index=N name=...'' @ [LF]\<rparr>"
  note toks = arg_tokens_NUL [OF assms(1)]
  from assms(3) have ne: "n \<noteq> []"
    by (cases n) simp_all
  have r: "handle_command api client line = ?inv \<or> handle_command api client line = ?usage"
    using assms(2)
  proof (elim disjE conjE)
    assume d: "dispatch ?line = Workspace_add"
      and a: "workspace_add_args (arg_tokens ?line) None = Some n"
    have "NUL \<notin> set n"
      by (rule workspace_add_args_NUL [OF toks _ a]) simp
    with assms(3) have "ipc_pct_decode_inplace n = None"
      by (simp add: decode_fails_iff_bad_escape)
    with d a ne have "handle_command api client line = ?inv"
      by (simp add: handle_command_def handle_workspace_add_def Let_def ipc_send_str_def)
    then show ?thesis ..
  next
    assume d: "dispatch ?line = Workspace_rename"
      and a: "fst (workspace_rename_args (arg_tokens ?line) (None, 0)) = Some n"
    obtain nm idx where p: "workspace_rename_args (arg_tokens ?line) (None, 0) = (nm, idx)"
      by (cases "workspace_rename_args (arg_tokens ?line) (None, 0)")
    with a have nm: "nm = Some n" by simp
    have "NUL \<notin> set n"
      by (rule workspace_rename_args_NUL [OF toks _ a]) simp
    with assms(3) have "ipc_pct_decode_inplace n = None"
      by (simp add: decode_fails_iff_bad_escape)
    with d p nm ne show ?thesis
      by (simp add: handle_command_def handle_workspace_rename_def Let_def ipc_send_str_def)
  qed
  from r have "client_server (handle_command api client line) = client_server client"
    by auto
  with r show ?thesis by simp
qed

theorem bad_escape_has_no_effect_witness:
  "NUL \<notin> set ''workspace-add name=web%2''
   \<and> dispatch (string_strip ''workspace-add name=web%2'') = Workspace_add
   \<and> workspace_add_args (arg_tokens (string_strip ''workspace-add name=web%2'')) None
       = Some ''web%2''
   \<and> has_bad_escape ''web%2''
   \<and> sent (handle_command api0 client0 ''workspace-add name=web%2'')
       = ''ERROR invalid percent-encoding in name'' @ [LF]
   \<and> client_server (handle_command api0 client0 ''workspace-add name=web%2'')
       = client_server client0
   \<and> NUL \<notin> set ''workspace-rename index=1 name=%zz''
   \<and> dispatch (string_strip ''workspace-rename index=1 name=%zz'') = Workspace_rename
   \<and> fst (workspace_rename_args
            (arg_tokens (string_strip ''workspace-rename index=1 name=%zz'')) (None, 0))
       = Some ''%zz''
   \<and> has_bad_escape ''%zz''
   \<and> sent (handle_command api0 client0 ''workspace-rename index=1 name=%zz'')
       = ''ERROR invalid percent-encoding in name'' @ [LF]
   \<and> client_server (handle_command api0 client0 ''workspace-rename index=1 name=%zz'')
       = client_server client0"
proof -
  have n1: "NUL \<notin> set ''workspace-add name=web%2''"
    and n2: "NUL \<notin> set ''workspace-rename index=1 name=%zz''"
    by (simp_all add: NUL_def)
  have d1: "dispatch (string_strip ''workspace-add name=web%2'') = Workspace_add"
    and a1: "workspace_add_args (arg_tokens (string_strip ''workspace-add name=web%2'')) None
       = Some ''web%2''"
    and d2: "dispatch (string_strip ''workspace-rename index=1 name=%zz'') = Workspace_rename"
    and a2: "fst (workspace_rename_args
            (arg_tokens (string_strip ''workspace-rename index=1 name=%zz'')) (None, 0))
       = Some ''%zz''"
    by code_simp+
  have b1: "has_bad_escape ''web%2''" and b2: "has_bad_escape ''%zz''"
    by (simp_all add: isxdigit_def)
  have s2: "sent (handle_command api0 client0 ''workspace-rename index=1 name=%zz'')
       = ''ERROR invalid percent-encoding in name'' @ [LF]"
    by code_simp
  have s1: "sent (handle_command api0 client0 ''workspace-add name=web%2'')
       = ''ERROR invalid percent-encoding in name'' @ [LF]"
    by code_simp
  have t1: "client_server (handle_command api0 client0 ''workspace-add name=web%2'')
       = client_server client0"
    using bad_escape_has_no_effect [OF n1 disjI1 [OF conjI [OF d1 a1]] b1, of api0 client0]
    by simp
  have t2: "client_server (handle_command api0 client0 ''workspace-rename index=1 name=%zz'')
       = client_server client0"
    using bad_escape_has_no_effect [OF n2 disjI2 [OF conjI [OF d2 a2]] b2, of api0 client0]
    by simp
  show ?thesis
    using n1 d1 a1 b1 s1 t1 n2 d2 a2 b2 s2 t2 by simp
qed

end
